theory Spec2Isabelle
  imports Main
begin

section \<open>Python values shared by both modules\<close>

text \<open>
  The exceptions the modelled code can raise.  \<open>IndexError\<close> comes from list
  subscripts, \<open>ValueError\<close> from \<open>int(...)\<close>, from tuple unpacking and from
  \<open>math.sqrt\<close>, \<open>OverflowError\<close> from \<open>math.pow\<close> and from the conversion of
  an integer to a float.
\<close>

datatype error = IndexError | ValueError | OverflowError

text \<open>
  A Python list subscript \<open>xs[i]\<close>: indices from \<open>-len(xs)\<close> to \<open>len(xs) - 1\<close>
  are accepted, the negative ones counting from the end; any other index raises
  \<open>IndexError\<close>, which is \<open>None\<close> here.
\<close>

definition py_getitem :: "'a list \<Rightarrow> int \<Rightarrow> 'a option" where
  "py_getitem xs i =
     (if 0 \<le> i \<and> i < int (length xs) then Some (xs ! nat i)
      else if - int (length xs) \<le> i \<and> i < 0 then Some (xs ! nat (int (length xs) + i))
      else None)"

section \<open>ortools\_solver.py: the data model\<close>

text \<open>
  The pydantic classes \<open>Customer\<close>, \<open>Vehicle\<close> and \<open>Problem\<close>.  The fields
  \<open>id\<close>, \<open>x\<close> and \<open>y\<close> carry a prefix: the bare names are taken.
\<close>

record Customer =
  cust_id :: int
  customer_x :: int
  customer_y :: int
  demand :: int
  ready_time :: int
  due_date :: int
  service_time :: int

record Vehicle =
  veh_id :: int
  capacity :: int

record Problem =
  vehicles :: "Vehicle list"
  customers :: "Customer list"
  problem_id :: string
  depot :: int

text \<open>
  \<open>Problem\<close> derives from \<open>BaseModel\<close> and declares no validator: the generated
  constructor checks the types of the fields, which the record carries already, and
  nothing else.  \<open>depot\<close> defaults to 0 at every call site of the repository.
\<close>

definition Problem_new :: "Vehicle list \<Rightarrow> Customer list \<Rightarrow> string \<Rightarrow> int \<Rightarrow> error + Problem" where
  "Problem_new vs cs ident d =
     Inr \<lparr>vehicles = vs, customers = cs, problem_id = ident, depot = d\<rparr>"

text \<open>
  The three objects of the routing library a \<open>Solution\<close> keeps are external to the
  repository.  Each is a record of the queries the code makes of it:
  \<^item> \<open>model.vehicles()\<close>, \<open>model.Start(v)\<close>, \<open>model.IsEnd(index)\<close>;
  \<^item> \<open>fsolution.Value(model.NextVar(index))\<close> and
    \<open>fsolution.Min(time_dimension.CumulVar(index))\<close>;
  \<^item> \<open>manager.IndexToNode(index)\<close>.
\<close>

record RoutingModel =
  model_vehicles :: nat
  Start :: "int \<Rightarrow> int"
  IsEnd :: "int \<Rightarrow> bool"

record Assignment =
  NextValue :: "int \<Rightarrow> int"
  CumulMin :: "int \<Rightarrow> int"

record IndexManager =
  IndexToNode :: "int \<Rightarrow> int"

record Solution =
  problem :: Problem
  fsolution :: Assignment
  model :: RoutingModel
  manager :: IndexManager
  routes :: "int list list"
  total_driving_time :: int
  total_driving_service_time :: int

text \<open>
  \<open>Solution.__init__\<close>: the four arguments are kept, the accumulators start
  empty.  The set-up of the log file is left out.
\<close>

definition Solution_init :: "Problem \<Rightarrow> Assignment \<Rightarrow> RoutingModel \<Rightarrow> IndexManager \<Rightarrow> Solution" where
  "Solution_init p f m g =
     \<lparr>problem = p, fsolution = f, model = m, manager = g,
      routes = [], total_driving_time = 0, total_driving_service_time = 0\<rparr>"

section \<open>Solution.get\_routes\<close>

text \<open>
  The inner \<open>while not self.model.IsEnd(index)\<close> loop.  A successor chain that never
  reaches an end index keeps the loop running: the value is then \<open>None\<close>.
\<close>

partial_function (option) get_routes_while :: "Solution \<Rightarrow> int \<Rightarrow> int list \<Rightarrow> int list option" where
  "get_routes_while s index route =
     (if IsEnd (model s) index then Some route
      else let index' = NextValue (fsolution s) index
           in get_routes_while s index' (route @ [IndexToNode (manager s) index']))"

text \<open>The \<open>for route_nbr in range(self.model.vehicles())\<close> loop, appending to \<open>self.routes\<close>.\<close>

fun get_routes_for :: "Solution \<Rightarrow> nat list \<Rightarrow> int list list \<Rightarrow> int list list option" where
  "get_routes_for s [] rs = Some rs"
| "get_routes_for s (route_nbr # rest) rs =
     (let index = Start (model s) (int route_nbr)
      in case get_routes_while s index [IndexToNode (manager s) index] of
           None \<Rightarrow> None
         | Some route \<Rightarrow> get_routes_for s rest (rs @ [route]))"

text \<open>
  \<open>get_routes\<close> returns \<open>self.routes\<close> itself; the model returns its value at the
  time of the return, with the updated Solution.
\<close>

definition get_routes :: "Solution \<Rightarrow> (int list list \<times> Solution) option" where
  "get_routes s =
     (case get_routes_for s [0 ..< model_vehicles (model s)] (routes s) of
        None \<Rightarrow> None
      | Some rs \<Rightarrow> Some (rs, s\<lparr>routes := rs\<rparr>))"

text \<open>The Solution after \<open>k\<close> calls of \<open>get_routes\<close> in a row.\<close>

fun get_routes_times :: "nat \<Rightarrow> Solution \<Rightarrow> Solution option" where
  "get_routes_times 0 s = Some s"
| "get_routes_times (Suc k) s =
     (case get_routes s of None \<Rightarrow> None | Some (rs, s') \<Rightarrow> get_routes_times k s')"

section \<open>Solution.evaluate\_cost\<close>

text \<open>
  The inner loop.  \<open>time_var\<close> is taken at the index the iteration starts from, the
  index is then advanced, the cumulative time of \<open>time_var\<close> is added to
  \<open>driving_time\<close> and the service time of the customer at the new index to the
  service total.  The loop returns the index it stopped at and both sums.
\<close>

partial_function (option) evaluate_cost_while ::
  "Solution \<Rightarrow> int \<Rightarrow> int \<Rightarrow> int \<Rightarrow> (error + int \<times> int \<times> int) option" where
  "evaluate_cost_while s index driving_time service_total =
     (if IsEnd (model s) index then Some (Inr (index, driving_time, service_total))
      else let time_var = index;
               index' = NextValue (fsolution s) index;
               driving_time' = driving_time + CumulMin (fsolution s) time_var
           in case py_getitem (customers (problem s)) (IndexToNode (manager s) index') of
                None \<Rightarrow> Some (Inl IndexError)
              | Some c \<Rightarrow>
                  evaluate_cost_while s index' driving_time' (service_total + service_time c))"

text \<open>
  The \<open>for vehicle_id in range(len(self.problem.vehicles))\<close> loop; after the inner
  loop the cumulative time of the index it stopped at is added as well.
\<close>

fun evaluate_cost_for :: "Solution \<Rightarrow> nat list \<Rightarrow> int \<Rightarrow> int \<Rightarrow> (error + int \<times> int) option" where
  "evaluate_cost_for s [] driving_time service_total = Some (Inr (driving_time, service_total))"
| "evaluate_cost_for s (vehicle_id # rest) driving_time service_total =
     (case evaluate_cost_while s (Start (model s) (int vehicle_id)) driving_time service_total of
        None \<Rightarrow> None
      | Some (Inl e) \<Rightarrow> Some (Inl e)
      | Some (Inr (index, driving_time', service_total')) \<Rightarrow>
          evaluate_cost_for s rest (driving_time' + CumulMin (fsolution s) index) service_total')"

definition evaluate_cost :: "Solution \<Rightarrow> (error + int \<times> Solution) option" where
  "evaluate_cost s =
     (case evaluate_cost_for s [0 ..< length (vehicles (problem s))] 0 0 of
        None \<Rightarrow> None
      | Some (Inl e) \<Rightarrow> Some (Inl e)
      | Some (Inr (driving_time, service_total)) \<Rightarrow>
          Some (Inr (driving_time + service_total,
                     s\<lparr>total_driving_service_time := driving_time + service_total\<rparr>)))"

section \<open>Solution.print\_solution\<close>

text \<open>
  What \<open>print_solution\<close> does to the Solution; the printed text is left out.
  The inner loop looks up the customer of every index before the end index, for
  its demand, and returns the index it stopped at with the load.
\<close>

partial_function (option) print_solution_while ::
  "Solution \<Rightarrow> int \<Rightarrow> int \<Rightarrow> (error + int \<times> int) option" where
  "print_solution_while s index route_load =
     (if IsEnd (model s) index then Some (Inr (index, route_load))
      else case py_getitem (customers (problem s)) (IndexToNode (manager s) index) of
             None \<Rightarrow> Some (Inl IndexError)
           | Some c \<Rightarrow>
               print_solution_while s (NextValue (fsolution s) index) (route_load + demand c))"

text \<open>
  The loop over \<open>range(len(self.problem.vehicles))\<close> adds the cumulative time of
  the end index of every route to \<open>self.total_driving_time\<close>.
\<close>

fun print_solution_for :: "Solution \<Rightarrow> nat list \<Rightarrow> int \<Rightarrow> (error + int) option" where
  "print_solution_for s [] driving_total = Some (Inr driving_total)"
| "print_solution_for s (vehicle_id # rest) driving_total =
     (case print_solution_while s (Start (model s) (int vehicle_id)) 0 of
        None \<Rightarrow> None
      | Some (Inl e) \<Rightarrow> Some (Inl e)
      | Some (Inr (index, route_load)) \<Rightarrow>
          print_solution_for s rest (driving_total + CumulMin (fsolution s) index))"

text \<open>The last line printed calls \<open>evaluate_cost\<close>.\<close>

definition print_solution :: "Solution \<Rightarrow> (error + Solution) option" where
  "print_solution s =
     (case print_solution_for s [0 ..< length (vehicles (problem s))] (total_driving_time s) of
        None \<Rightarrow> None
      | Some (Inl e) \<Rightarrow> Some (Inl e)
      | Some (Inr driving_total) \<Rightarrow>
          (case evaluate_cost (s\<lparr>total_driving_time := driving_total\<rparr>) of
             None \<Rightarrow> None
           | Some (Inl e) \<Rightarrow> Some (Inl e)
           | Some (Inr (c, s')) \<Rightarrow> Some (Inr s')))"

section \<open>Solution.feasible\<close>

text \<open>
  The records written to the log, as data.  Vehicle ids are loop counters, the
  other arguments are the interpolated values.
\<close>

datatype log_record =
    Info_instance string
  | Info_capacity_start nat
  | Info_capacity_ok nat
  | Warning_capacity_not_ok nat
  | Info_time_window_start nat
  | Info_time_window_met int
  | Warning_time_window_not_met int
  | Info_time_windows_ok nat
  | Info_cost int
  | Info_newline

text \<open>The demand of a route: every index before the end index is counted.\<close>

partial_function (option) capacity_while :: "Solution \<Rightarrow> int \<Rightarrow> int \<Rightarrow> (error + int) option" where
  "capacity_while s index capacity_of_route =
     (if IsEnd (model s) index then Some (Inr capacity_of_route)
      else case py_getitem (customers (problem s)) (IndexToNode (manager s) index) of
             None \<Rightarrow> Some (Inl IndexError)
           | Some c \<Rightarrow>
               capacity_while s (NextValue (fsolution s) index) (capacity_of_route + demand c))"

text \<open>
  The capacity loop over \<open>range(self.model.vehicles())\<close>.  Every route is compared
  with \<open>self.problem.vehicles[0].capacity\<close>.  The boolean is \<open>False\<close> when the
  loop has executed \<open>return False\<close>.
\<close>

fun capacity_for :: "Solution \<Rightarrow> nat list \<Rightarrow> log_record list \<Rightarrow> (error + bool \<times> log_record list) option" where
  "capacity_for s [] lg = Some (Inr (True, lg))"
| "capacity_for s (vehicle_id # rest) lg =
     (case capacity_while s (Start (model s) (int vehicle_id)) 0 of
        None \<Rightarrow> None
      | Some (Inl e) \<Rightarrow> Some (Inl e)
      | Some (Inr capacity_of_route) \<Rightarrow>
          (case py_getitem (vehicles (problem s)) 0 of
             None \<Rightarrow> Some (Inl IndexError)
           | Some v0 \<Rightarrow>
               if capacity_of_route \<le> capacity v0
               then capacity_for s rest (lg @ [Info_capacity_start vehicle_id, Info_capacity_ok vehicle_id])
               else Some (Inr (False, lg @ [Info_capacity_start vehicle_id, Warning_capacity_not_ok vehicle_id]))))"

text \<open>
  The time-window walk of one route.  An index whose node is the depot is stepped
  over; at any other index the cumulative time is compared with the window of the
  customer.  The warning names the node of \<open>index - 1\<close>, as the source does.
\<close>

partial_function (option) time_window_while ::
  "Solution \<Rightarrow> int \<Rightarrow> log_record list \<Rightarrow> (error + bool \<times> log_record list) option" where
  "time_window_while s index lg =
     (if IsEnd (model s) index then Some (Inr (True, lg))
      else if IndexToNode (manager s) index = depot (problem s)
      then time_window_while s (NextValue (fsolution s) index) lg
      else let time_window_arrive = CumulMin (fsolution s) index
           in case py_getitem (customers (problem s)) (IndexToNode (manager s) index) of
                None \<Rightarrow> Some (Inl IndexError)
              | Some c \<Rightarrow>
                  if ready_time c \<le> time_window_arrive \<and> time_window_arrive \<le> due_date c
                  then time_window_while s (NextValue (fsolution s) index)
                         (lg @ [Info_time_window_met (IndexToNode (manager s) index)])
                  else Some (Inr (False,
                         lg @ [Warning_time_window_not_met (IndexToNode (manager s) (index - 1))])))"

text \<open>The time-window loop over \<open>range(len(self.problem.vehicles))\<close>.\<close>

fun time_window_for :: "Solution \<Rightarrow> nat list \<Rightarrow> log_record list \<Rightarrow> (error + bool \<times> log_record list) option" where
  "time_window_for s [] lg = Some (Inr (True, lg))"
| "time_window_for s (vehicle_id # rest) lg =
     (case time_window_while s (Start (model s) (int vehicle_id)) (lg @ [Info_time_window_start vehicle_id]) of
        None \<Rightarrow> None
      | Some (Inl e) \<Rightarrow> Some (Inl e)
      | Some (Inr (False, lg')) \<Rightarrow> Some (Inr (False, lg'))
      | Some (Inr (True, lg')) \<Rightarrow> time_window_for s rest (lg' @ [Info_time_windows_ok vehicle_id]))"

text \<open>
  \<open>feasible\<close>: the capacity loop, the time-window loop, and on success the cost,
  logged through a call of \<open>evaluate_cost\<close>.  The result is the verdict, the log and
  the Solution as the call leaves it.
\<close>

definition feasible :: "Solution \<Rightarrow> (error + bool \<times> log_record list \<times> Solution) option" where
  "feasible s =
     (case capacity_for s [0 ..< model_vehicles (model s)] [Info_instance (problem_id (problem s))] of
        None \<Rightarrow> None
      | Some (Inl e) \<Rightarrow> Some (Inl e)
      | Some (Inr (False, lg)) \<Rightarrow> Some (Inr (False, lg, s))
      | Some (Inr (True, lg)) \<Rightarrow>
          (case time_window_for s [0 ..< length (vehicles (problem s))] lg of
             None \<Rightarrow> None
           | Some (Inl e) \<Rightarrow> Some (Inl e)
           | Some (Inr (False, lg')) \<Rightarrow> Some (Inr (False, lg', s))
           | Some (Inr (True, lg')) \<Rightarrow>
               (case evaluate_cost s of
                  None \<Rightarrow> None
                | Some (Inl e) \<Rightarrow> Some (Inl e)
                | Some (Inr (cost, s')) \<Rightarrow>
                    Some (Inr (True, lg' @ [Info_cost cost, Info_newline], s')))))"

section \<open>Solution.save\_to\_file\<close>

text \<open>
  The dictionary handed to \<open>json.dump\<close>: one entry per element of \<open>self.routes\<close>,
  numbered by \<open>enumerate\<close>, and the cost from \<open>evaluate_cost\<close>.  Opening and
  writing the file are left out.
\<close>

record RouteEntry =
  entry_vehicle :: nat
  entry_route :: "int list"

record Result =
  result_routes :: "RouteEntry list"
  result_cost :: int

definition save_to_file :: "Solution \<Rightarrow> (error + Result \<times> Solution) option" where
  "save_to_file s =
     (let entries = map (\<lambda>(vehicle_id, cs). \<lparr>entry_vehicle = vehicle_id, entry_route = cs\<rparr>)
                        (enumerate 0 (routes s))
      in case evaluate_cost s of
           None \<Rightarrow> None
         | Some (Inl e) \<Rightarrow> Some (Inl e)
         | Some (Inr (c, s')) \<Rightarrow> Some (Inr (\<lparr>result_routes = entries, result_cost = c\<rparr>, s')))"

section \<open>vrp\_problem.py: the file-loading Problem\<close>

text \<open>
  \<open>Customer\<close> and \<open>Problem\<close> of \<open>vrp_problem.py\<close>; the names carry the prefix
  \<open>File\<close> to keep them apart from the pydantic classes.  The \<open>coordinates\<close>
  dictionary has exactly the keys \<open>x\<close> and \<open>y\<close>, one field each here.
\<close>

record FileCustomer =
  fc_id :: int
  fc_x :: int
  fc_y :: int
  fc_demand :: int
  fc_ready_time :: int
  fc_due_date :: int
  fc_service_time :: int

text \<open>
  The floating-point arithmetic of the interpreter is external to the
  repository, and the rounding of \<open>math.pow\<close> is left to the platform.  The
  floats are a type parameter and the four operations the constructor uses are
  taken as they are:
  \<^item> the conversion of an integer, which raises \<open>OverflowError\<close> on an integer
    too large for a float (\<open>None\<close>);
  \<^item> \<open>math.pow(x, 2)\<close>, which raises \<open>OverflowError\<close> when the result is out of
    range (\<open>None\<close>);
  \<^item> the sum of two floats, which never raises;
  \<^item> \<open>math.sqrt\<close>, which raises \<open>ValueError\<close> outside its domain (\<open>None\<close>).
  \<open>float_nonneg x\<close> is the comparison \<open>0 <= x\<close>.
\<close>

record 'f FloatOps =
  float_of_int :: "int \<Rightarrow> 'f option"
  math_pow2 :: "'f \<Rightarrow> 'f option"
  float_add :: "'f \<Rightarrow> 'f \<Rightarrow> 'f"
  math_sqrt :: "'f \<Rightarrow> 'f option"
  float_nonneg :: "'f \<Rightarrow> bool"

text \<open>
  \<open>Customer.distance\<close>: the two differences are integers, each \<open>math.pow\<close>
  converts its argument and squares it, the squares are added and the root is
  taken, in this order.
\<close>

definition distance :: "'f FloatOps \<Rightarrow> FileCustomer \<Rightarrow> FileCustomer \<Rightarrow> error + 'f" where
  "distance ops self other_customer =
     (case float_of_int ops (fc_x other_customer - fc_x self) of
        None \<Rightarrow> Inl OverflowError
      | Some dx \<Rightarrow>
     (case math_pow2 ops dx of
        None \<Rightarrow> Inl OverflowError
      | Some dx2 \<Rightarrow>
     (case float_of_int ops (fc_y other_customer - fc_y self) of
        None \<Rightarrow> Inl OverflowError
      | Some dy \<Rightarrow>
     (case math_pow2 ops dy of
        None \<Rightarrow> Inl OverflowError
      | Some dy2 \<Rightarrow>
     (case math_sqrt ops (float_add ops dx2 dy2) of
        None \<Rightarrow> Inl ValueError
      | Some d \<Rightarrow> Inr d)))))"

text \<open>
  A value of \<open>travel_time\<close>: the integer 0 on the diagonal, a float elsewhere.
\<close>

datatype 'f number = PyInt int | PyFloat 'f

text \<open>
  \<open>vehicles\<close> and \<open>capacity\<close> stay \<open>None\<close> when the file has no row 4.
  \<open>travel_time\<close> is a dictionary of dictionaries keyed by \<open>range(no_customers())\<close>.
\<close>

record 'f FileProblem =
  fp_customers :: "FileCustomer list"
  fp_vehicles :: "int option"
  fp_capacity :: "int option"
  fp_depot :: FileCustomer
  travel_time :: "int \<rightharpoonup> (int \<rightharpoonup> 'f number)"

definition no_customers :: "'f FileProblem \<Rightarrow> nat" where
  "no_customers p = length (fp_customers p)"

text \<open>
  A row of the file is the token list \<open>line.strip().split()\<close>; a blank row is the
  empty list.  \<open>py_int\<close> stands for Python's \<open>int\<close> on a token, \<open>None\<close> when it
  raises \<open>ValueError\<close>.  The comprehension of row 4 converts every token before the
  two targets are unpacked; both failures are a \<open>ValueError\<close>.
\<close>

definition parse_fleet :: "(string \<Rightarrow> int option) \<Rightarrow> string list \<Rightarrow> error + int \<times> int" where
  "parse_fleet py_int line =
     (case those (map py_int line) of
        None \<Rightarrow> Inl ValueError
      | Some [a, b] \<Rightarrow> Inr (a, b)
      | Some _ \<Rightarrow> Inl ValueError)"

definition parse_customer :: "(string \<Rightarrow> int option) \<Rightarrow> string list \<Rightarrow> error + FileCustomer" where
  "parse_customer py_int data =
     (case those (map py_int data) of
        Some [a, b, c, d, e, f, g] \<Rightarrow>
          Inr \<lparr>fc_id = a, fc_x = b, fc_y = c, fc_demand = d,
               fc_ready_time = e, fc_due_date = f, fc_service_time = g\<rparr>
      | _ \<Rightarrow> Inl ValueError)"

text \<open>
  The loop over \<open>enumerate(reader)\<close>.  The state is the customer list and the two
  fleet fields.  Row 4 sets the fleet fields before the \<open>skiprows\<close> test, and is then
  treated like any other row.
\<close>

fun read_rows ::
  "(string \<Rightarrow> int option) \<Rightarrow> int \<Rightarrow> nat \<Rightarrow> string list list
   \<Rightarrow> FileCustomer list \<times> int option \<times> int option
   \<Rightarrow> error + FileCustomer list \<times> int option \<times> int option" where
  "read_rows py_int skiprows row_counter [] st = Inr st"
| "read_rows py_int skiprows row_counter (line # rest) (cs, veh, cap) =
     (case (if row_counter = 4
            then (case parse_fleet py_int line of
                    Inl e \<Rightarrow> Inl e
                  | Inr (a, b) \<Rightarrow> Inr (Some a, Some b))
            else Inr (veh, cap)) of
        Inl e \<Rightarrow> Inl e
      | Inr (veh', cap') \<Rightarrow>
          if int row_counter \<le> skiprows
          then read_rows py_int skiprows (Suc row_counter) rest (cs, veh', cap')
          else if line = []
          then read_rows py_int skiprows (Suc row_counter) rest (cs, veh', cap')
          else if length line \<noteq> 7
          then read_rows py_int skiprows (Suc row_counter) rest (cs, veh', cap')
          else (case parse_customer py_int line of
                  Inl e \<Rightarrow> Inl e
                | Inr c \<Rightarrow>
                    read_rows py_int skiprows (Suc row_counter) rest (cs @ [c], veh', cap')))"

text \<open>
  One value of the comprehension that fills \<open>travel_time\<close>: the condition
  \<open>i != j\<close> is tested first; off the diagonal the distance is computed and the
  service time of customer \<open>i\<close>, an integer, is converted and added to it.
\<close>

definition travel_entry :: "'f FloatOps \<Rightarrow> FileCustomer list \<Rightarrow> nat \<Rightarrow> nat \<Rightarrow> error + 'f number" where
  "travel_entry ops cs i j =
     (if i \<noteq> j
      then (case distance ops (cs ! i) (cs ! j) of
              Inl e \<Rightarrow> Inl e
            | Inr d \<Rightarrow>
                (case float_of_int ops (fc_service_time (cs ! i)) of
                   None \<Rightarrow> Inl OverflowError
                 | Some sv \<Rightarrow> Inr (PyFloat (float_add ops d sv))))
      else Inr (PyInt 0))"

text \<open>
  A comprehension evaluates its element for every key in turn and stops at the
  first exception.
\<close>

fun collect :: "('a \<Rightarrow> error + 'b) \<Rightarrow> 'a list \<Rightarrow> error + 'b list" where
  "collect f [] = Inr []"
| "collect f (k # ks) =
     (case f k of
        Inl e \<Rightarrow> Inl e
      | Inr v \<Rightarrow> (case collect f ks of Inl e \<Rightarrow> Inl e | Inr vs \<Rightarrow> Inr (v # vs)))"

text \<open>The dictionary with the keys \<open>range(len(vs))\<close> and the values \<open>vs\<close>.\<close>

definition dict_of_list :: "'a list \<Rightarrow> int \<rightharpoonup> 'a" where
  "dict_of_list vs = (\<lambda>k. if 0 \<le> k \<and> k < int (length vs) then Some (vs ! nat k) else None)"

text \<open>The dictionary comprehension that fills \<open>travel_time\<close>, rows outside, columns inside.\<close>

definition travel_time_of ::
  "'f FloatOps \<Rightarrow> FileCustomer list \<Rightarrow> error + (int \<rightharpoonup> (int \<rightharpoonup> 'f number))" where
  "travel_time_of ops cs =
     (case collect (\<lambda>i. collect (\<lambda>j. travel_entry ops cs i j) [0 ..< length cs])
                   [0 ..< length cs] of
        Inl e \<Rightarrow> Inl e
      | Inr m \<Rightarrow> Inr (dict_of_list (map dict_of_list m)))"

text \<open>
  \<open>Problem.__init__\<close> on the rows of the dataset file: the rows are read, the first
  customer becomes the depot and is appended to the list, the matrix is filled.
  \<open>self.customers[0]\<close> raises \<open>IndexError\<close> on an empty list.  Opening the file
  is left out.
\<close>

definition FileProblem_init ::
  "'f FloatOps \<Rightarrow> (string \<Rightarrow> int option) \<Rightarrow> string list list \<Rightarrow> int \<Rightarrow> error + 'f FileProblem" where
  "FileProblem_init ops py_int rows skiprows =
     (case read_rows py_int skiprows 0 rows ([], None, None) of
        Inl e \<Rightarrow> Inl e
      | Inr (cs, veh, cap) \<Rightarrow>
          (case cs of
             [] \<Rightarrow> Inl IndexError
           | d # _ \<Rightarrow>
               (case travel_time_of ops (cs @ [d]) of
                  Inl e \<Rightarrow> Inl e
                | Inr t \<Rightarrow>
                    Inr \<lparr>fp_customers = cs @ [d], fp_vehicles = veh, fp_capacity = cap,
                         fp_depot = d, travel_time = t\<rparr>)))"


text \<open>
  The rows that the loop turns into a customer: past \<open>skiprows\<close> and of seven
  tokens.
\<close>

definition customer_rows :: "int \<Rightarrow> nat \<Rightarrow> string list list \<Rightarrow> string list list" where
  "customer_rows skiprows k rows =
     map snd (filter (\<lambda>(n, line). \<not> int n \<le> skiprows \<and> length line = 7) (enumerate k rows))"

section \<open>Routes as index lists\<close>

text \<open>
  The walk every loop of \<open>Solution\<close> makes, bounded by a number of steps so that
  it is a total function: whether an end index is reached within \<open>n\<close> steps, the
  indices met before it, and the end index itself.
\<close>

fun ends_within :: "Solution \<Rightarrow> nat \<Rightarrow> int \<Rightarrow> bool" where
  "ends_within s 0 i = IsEnd (model s) i"
| "ends_within s (Suc n) i = (IsEnd (model s) i \<or> ends_within s n (NextValue (fsolution s) i))"

fun path :: "Solution \<Rightarrow> nat \<Rightarrow> int \<Rightarrow> int list" where
  "path s 0 i = []"
| "path s (Suc n) i = (if IsEnd (model s) i then [] else i # path s n (NextValue (fsolution s) i))"

fun terminal :: "Solution \<Rightarrow> nat \<Rightarrow> int \<Rightarrow> int" where
  "terminal s 0 i = i"
| "terminal s (Suc n) i = (if IsEnd (model s) i then i else terminal s n (NextValue (fsolution s) i))"

definition nodes_in_range :: "Solution \<Rightarrow> bool" where
  "nodes_in_range s =
     (\<forall>i. 0 \<le> IndexToNode (manager s) i
          \<and> IndexToNode (manager s) i < int (length (customers (problem s))))"

definition node_customer :: "Solution \<Rightarrow> int \<Rightarrow> Customer" where
  "node_customer s i = customers (problem s) ! nat (IndexToNode (manager s) i)"

text \<open>Two Solutions over the same problem and the same solver objects.\<close>

definition same_inputs :: "Solution \<Rightarrow> Solution \<Rightarrow> bool" where
  "same_inputs s s' =
     (problem s' = problem s \<and> fsolution s' = fsolution s
      \<and> model s' = model s \<and> manager s' = manager s)"

text \<open>
  The indices of the route of vehicle \<open>v\<close>, the end index last, and what the
  loops add up along them: the nodes, the demand before the end index, and the
  cumulative times of all indices plus the service times of all indices after
  the first.
\<close>

definition route_indices :: "Solution \<Rightarrow> nat \<Rightarrow> nat \<Rightarrow> int list" where
  "route_indices s n v =
     path s n (Start (model s) (int v)) @ [terminal s n (Start (model s) (int v))]"

definition route_nodes :: "Solution \<Rightarrow> nat \<Rightarrow> nat \<Rightarrow> int list" where
  "route_nodes s n v = map (IndexToNode (manager s)) (route_indices s n v)"

definition route_demand :: "Solution \<Rightarrow> nat \<Rightarrow> nat \<Rightarrow> int" where
  "route_demand s n v =
     sum_list (map (\<lambda>j. demand (node_customer s j)) (butlast (route_indices s n v)))"

definition route_cost :: "Solution \<Rightarrow> nat \<Rightarrow> nat \<Rightarrow> int" where
  "route_cost s n v =
     sum_list (map (CumulMin (fsolution s)) (route_indices s n v))
     + sum_list (map (\<lambda>j. service_time (node_customer s j)) (tl (route_indices s n v)))"

definition total_cost :: "Solution \<Rightarrow> nat \<Rightarrow> int" where
  "total_cost s n = sum_list (map (route_cost s n) [0 ..< length (vehicles (problem s))])"

text \<open>The sum, over the vehicles, of the cumulative time at the end index of the route.\<close>

definition terminal_time_sum :: "Solution \<Rightarrow> nat \<Rightarrow> int" where
  "terminal_time_sum s n =
     sum_list (map (\<lambda>v. CumulMin (fsolution s) (last (route_indices s n v)))
                   [0 ..< length (vehicles (problem s))])"

definition window_met :: "Solution \<Rightarrow> int \<Rightarrow> bool" where
  "window_met s j =
     (ready_time (node_customer s j) \<le> CumulMin (fsolution s) j
      \<and> CumulMin (fsolution s) j \<le> due_date (node_customer s j))"

definition is_depot :: "Solution \<Rightarrow> int \<Rightarrow> bool" where
  "is_depot s j = (IndexToNode (manager s) j = depot (problem s))"

text \<open>Every one of the first \<open>k\<close> routes reaches its end index within \<open>n\<close> steps.\<close>

definition routes_end :: "Solution \<Rightarrow> nat \<Rightarrow> nat \<Rightarrow> bool" where
  "routes_end s n k = list_all (\<lambda>v. ends_within s n (Start (model s) (int v))) [0 ..< k]"

text \<open>
  The two conditions of the validator, read off the routes: the demand of every
  route of the model against the capacity the code compares with, and the window
  of every index that is not a depot index, on the routes of the vehicles of the
  problem.
\<close>

definition capacity_ok :: "Solution \<Rightarrow> nat \<Rightarrow> bool" where
  "capacity_ok s n =
     list_all (\<lambda>v. route_demand s n v \<le> capacity (vehicles (problem s) ! 0))
              [0 ..< model_vehicles (model s)]"

definition time_windows_ok :: "Solution \<Rightarrow> nat \<Rightarrow> bool" where
  "time_windows_ok s n =
     list_all (\<lambda>v. list_all (\<lambda>j. is_depot s j \<or> window_met s j) (route_indices s n v))
              [0 ..< length (vehicles (problem s))]"

text \<open>What a caller sees of a run of \<open>feasible\<close>: the verdict and the log.\<close>

definition verdict ::
  "(error + bool \<times> log_record list \<times> Solution) option \<Rightarrow> (error + bool \<times> log_record list) option" where
  "verdict r = map_option (map_sum id (\<lambda>(b, lg, s'). (b, lg))) r"

text \<open>The value a call of \<open>evaluate_cost\<close> returns, without the Solution.\<close>

definition returned :: "(error + int \<times> Solution) option \<Rightarrow> (error + int) option" where
  "returned r = map_option (map_sum id fst) r"

section \<open>Example Solutions\<close>

text \<open>
  One depot with window [0, 1000] and two customers of demand 10 and service
  time 5, with windows [10, 50] and [60, 100]; one vehicle of capacity 20 on the
  route 0, 1, 2, 0 with cumulative times 0, 20, 70, 80.  The indices are 0 to 3,
  index 3 being the end index of the vehicle.
\<close>

definition scenario_problem :: Problem where
  "scenario_problem =
     \<lparr>vehicles = [\<lparr>veh_id = 0, capacity = 20\<rparr>],
      customers =
        [\<lparr>cust_id = 0, customer_x = 0, customer_y = 0, demand = 0,
          ready_time = 0, due_date = 1000, service_time = 0\<rparr>,
         \<lparr>cust_id = 1, customer_x = 10, customer_y = 0, demand = 10,
          ready_time = 10, due_date = 50, service_time = 5\<rparr>,
         \<lparr>cust_id = 2, customer_x = 20, customer_y = 0, demand = 10,
          ready_time = 60, due_date = 100, service_time = 5\<rparr>],
      problem_id = ''scenario.txt'', depot = 0\<rparr>"

definition scenario_model :: RoutingModel where
  "scenario_model = \<lparr>model_vehicles = 1, Start = (\<lambda>v. 0), IsEnd = (\<lambda>i. i = 3)\<rparr>"

definition scenario_assignment :: Assignment where
  "scenario_assignment =
     \<lparr>NextValue = (\<lambda>i. i + 1),
      CumulMin = (\<lambda>i. if i = 1 then 20 else if i = 2 then 70 else if i = 3 then 80 else 0)\<rparr>"

definition scenario_manager :: IndexManager where
  "scenario_manager = \<lparr>IndexToNode = (\<lambda>i. if i = 1 then 1 else if i = 2 then 2 else 0)\<rparr>"

definition scenario :: Solution where
  "scenario = Solution_init scenario_problem scenario_assignment scenario_model scenario_manager"

text \<open>
  The same route when the window of customer 2 is [10, 50]: the vehicle arrives
  at cumulative time 70.
\<close>

definition tight_scenario :: Solution where
  "tight_scenario =
     scenario\<lparr>problem := scenario_problem\<lparr>customers :=
        [\<lparr>cust_id = 0, customer_x = 0, customer_y = 0, demand = 0,
          ready_time = 0, due_date = 1000, service_time = 0\<rparr>,
         \<lparr>cust_id = 1, customer_x = 10, customer_y = 0, demand = 10,
          ready_time = 10, due_date = 50, service_time = 5\<rparr>,
         \<lparr>cust_id = 2, customer_x = 20, customer_y = 0, demand = 10,
          ready_time = 10, due_date = 50, service_time = 5\<rparr>]\<rparr>\<rparr>"

section \<open>Further notions for the validator\<close>

text \<open>
  The routing library maps every end index to the depot node; the time-window
  loop never looks at an end index.
\<close>

definition ends_are_depot :: "Solution \<Rightarrow> bool" where
  "ends_are_depot s = (\<forall>i. IsEnd (model s) i \<longrightarrow> is_depot s i)"

text \<open>The record the time-window loop writes before \<open>return False\<close>.\<close>

definition is_window_warning :: "log_record \<Rightarrow> bool" where
  "is_window_warning r = (case r of Warning_time_window_not_met w \<Rightarrow> True | _ \<Rightarrow> False)"

text \<open>The boolean a call of \<open>feasible\<close> returns, without log and Solution.\<close>

definition decision :: "(error + bool \<times> log_record list \<times> Solution) option \<Rightarrow> (error + bool) option" where
  "decision r = map_option (map_sum id fst) r"

text \<open>
  A fleet of two capacities, 20 and 5.  Vehicle 0 goes from its start index 0
  straight to its end index 3; vehicle 1 goes from its start index 1 to index 2,
  the customer of demand 10, and on to its end index 4.
\<close>

definition mixed_fleet_problem :: Problem where
  "mixed_fleet_problem =
     \<lparr>vehicles = [\<lparr>veh_id = 0, capacity = 20\<rparr>, \<lparr>veh_id = 1, capacity = 5\<rparr>],
      customers =
        [\<lparr>cust_id = 0, customer_x = 0, customer_y = 0, demand = 0,
          ready_time = 0, due_date = 1000, service_time = 0\<rparr>,
         \<lparr>cust_id = 1, customer_x = 10, customer_y = 0, demand = 10,
          ready_time = 0, due_date = 100, service_time = 5\<rparr>],
      problem_id = ''mixed.txt'', depot = 0\<rparr>"

definition mixed_fleet_model :: RoutingModel where
  "mixed_fleet_model =
     \<lparr>model_vehicles = 2, Start = (\<lambda>v. if v = 0 then 0 else 1), IsEnd = (\<lambda>i. i = 3 \<or> i = 4)\<rparr>"

definition mixed_fleet_assignment :: Assignment where
  "mixed_fleet_assignment =
     \<lparr>NextValue = (\<lambda>i. if i = 0 then 3 else if i = 1 then 2 else 4),
      CumulMin = (\<lambda>i. if i = 2 then 10 else if i = 4 then 30 else 0)\<rparr>"

definition mixed_fleet_manager :: IndexManager where
  "mixed_fleet_manager = \<lparr>IndexToNode = (\<lambda>i. if i = 2 then 1 else 0)\<rparr>"

definition mixed_fleet :: Solution where
  "mixed_fleet =
     Solution_init mixed_fleet_problem mixed_fleet_assignment mixed_fleet_model mixed_fleet_manager"

section \<open>Further notions for the routes\<close>

text \<open>
  The routing library maps the start index of every vehicle to the depot node.
  A vehicle serves no customer when the successor of its start index is an end
  index.  A route is anchored when it starts and ends with the depot index.
\<close>

definition starts_are_depot :: "Solution \<Rightarrow> bool" where
  "starts_are_depot s =
     list_all (\<lambda>v. is_depot s (Start (model s) (int v))) [0 ..< model_vehicles (model s)]"

definition serves_none :: "Solution \<Rightarrow> nat \<Rightarrow> bool" where
  "serves_none s v =
     (\<not> IsEnd (model s) (Start (model s) (int v))
      \<and> IsEnd (model s) (NextValue (fsolution s) (Start (model s) (int v))))"

definition anchored :: "Solution \<Rightarrow> int list \<Rightarrow> bool" where
  "anchored s r = (r \<noteq> [] \<and> hd r = depot (problem s) \<and> last r = depot (problem s))"

text \<open>
  \<open>ext\<close> is what the loop of \<open>get_routes\<close> over the vehicles \<open>vs\<close> appends,
  whatever the list it appends to: one route per vehicle, the nodes of the
  indices of its route.
\<close>

definition extracts :: "Solution \<Rightarrow> nat list \<Rightarrow> int list list \<Rightarrow> bool" where
  "extracts s vs ext =
     (length ext = length vs
      \<and> (\<forall>rs. get_routes_for s vs rs = Some (rs @ ext))
      \<and> (\<forall>k < length vs. \<exists>n. ends_within s n (Start (model s) (int (vs ! k)))
                              \<and> ext ! k = route_nodes s n (vs ! k)))"

section \<open>Further notions for the dataset file\<close>

text \<open>
  Every token the loop converts is an integer: row 4 holds two integers, and the
  rows of seven tokens past \<open>skiprows\<close> hold integers only.
\<close>

definition rows_parse :: "(string \<Rightarrow> int option) \<Rightarrow> int \<Rightarrow> nat \<Rightarrow> string list list \<Rightarrow> bool" where
  "rows_parse py_int skiprows k rows =
     list_all (\<lambda>(n, line). (n = 4 \<longrightarrow> \<not> isl (parse_fleet py_int line))
                          \<and> (\<not> int n \<le> skiprows \<and> length line = 7
                               \<longrightarrow> \<not> isl (parse_customer py_int line)))
              (enumerate k rows)"

text \<open>What the matrix is computed from: the position and the service time of a customer.\<close>

definition placement :: "FileCustomer \<Rightarrow> int \<times> int \<times> int" where
  "placement c = (fc_x c, fc_y c, fc_service_time c)"



text \<open>
  A dataset of the Solomon layout with one vehicle of capacity 0, the depot at the
  origin and one customer at (3, 4) with ready time 10, due date 0 and service
  time -10.  \<open>example_int\<close> is \<open>int\<close> on the tokens of this file.
\<close>

definition example_int :: "string \<Rightarrow> int option" where
  "example_int =
     map_of [(''0'', 0), (''1'', 1), (''3'', 3), (''4'', 4), (''5'', 5),
             (''10'', 10), (''200'', 200), (''-10'', - 10)]"

definition example_rows :: "string list list" where
  "example_rows =
     [[''EXAMPLE''], [], [''VEHICLE''], [''NUMBER'', ''CAPACITY''], [''1'', ''0''],
      [''0'', ''0'', ''0'', ''0'', ''0'', ''200'', ''0''],
      [''1'', ''3'', ''4'', ''5'', ''10'', ''0'', ''-10'']]"

text \<open>
  A table of the float operations for the example: the floats that are integers
  of magnitude up to \<open>2^53\<close>, written as these integers.  On them the
  conversion is exact, the square of a float up to \<open>2^26\<close> in magnitude is
  exact, and so is a sum that stays within the range; of the roots only the two
  the example needs are tabulated, both exact.  Every answer \<open>Some\<close> is the
  float the interpreter computes.  Outside these ranges the interpreter goes on
  computing, with rounding, where the table stops with \<open>None\<close>: it stands for
  the interpreter on the example only.
\<close>

definition example_float :: "int FloatOps" where
  "example_float =
     \<lparr>float_of_int = (\<lambda>k. if \<bar>k\<bar> \<le> 2 ^ 53 then Some k else None),
      math_pow2 = (\<lambda>a. if \<bar>a\<bar> \<le> 2 ^ 26 then Some (a * a) else None),
      float_add = (\<lambda>a b. a + b),
      math_sqrt = (\<lambda>a. if a = 0 then Some 0 else if a = 25 then Some 5 else None),
      float_nonneg = (\<lambda>a. 0 \<le> a)\<rparr>"

definition example_depot :: FileCustomer where
  "example_depot =
     \<lparr>fc_id = 0, fc_x = 0, fc_y = 0, fc_demand = 0,
      fc_ready_time = 0, fc_due_date = 200, fc_service_time = 0\<rparr>"

definition example_customer :: FileCustomer where
  "example_customer =
     \<lparr>fc_id = 1, fc_x = 3, fc_y = 4, fc_demand = 5,
      fc_ready_time = 10, fc_due_date = 0, fc_service_time = - 10\<rparr>"

text \<open>The matrix of the example, row by row.\<close>

definition example_matrix :: "int number list list" where
  "example_matrix =
     [[PyInt 0, PyFloat 5, PyFloat 0],
      [PyFloat (- 5), PyInt 0, PyFloat (- 5)],
      [PyFloat 0, PyFloat 5, PyInt 0]]"

definition example_file_problem :: "int FileProblem" where
  "example_file_problem =
     \<lparr>fp_customers = [example_depot, example_customer, example_depot],
      fp_vehicles = Some 1, fp_capacity = Some 0, fp_depot = example_depot,
      travel_time = dict_of_list (map dict_of_list example_matrix)\<rparr>"

text \<open>
  The same file with capacity 200 and the window of the customer set to
  [10, 200].
\<close>

definition sound_rows :: "string list list" where
  "sound_rows =
     [[''EXAMPLE''], [], [''VEHICLE''], [''NUMBER'', ''CAPACITY''], [''1'', ''200''],
      [''0'', ''0'', ''0'', ''0'', ''0'', ''200'', ''0''],
      [''1'', ''3'', ''4'', ''5'', ''10'', ''200'', ''-10'']]"

section \<open>The loops do not read the accumulator fields\<close>


lemma same_inputs_sym: "same_inputs s s' \<Longrightarrow> same_inputs s' s"
  by (simp add: same_inputs_def)

lemma option_eq_by_mono:
  assumes "\<And>y. a = Some y \<Longrightarrow> b = Some y" and "\<And>y. b = Some y \<Longrightarrow> a = Some y"
  shows "b = a"
  using assms by (cases a; cases b) auto

lemma get_routes_while_mono:
  assumes "get_routes_while s i r = Some y"
  shows "same_inputs s s' \<longrightarrow> get_routes_while s' i r = Some y"
proof (rule get_routes_while.raw_induct[OF _ assms], goal_cases)
  case (1 f s i r y)
  show ?case
  proof
    assume same: "same_inputs s s'"
    show "get_routes_while s' i r = Some y"
    proof (cases "IsEnd (model s) i")
      case True
      with 1(2) same show ?thesis
        by (subst get_routes_while.simps) (simp add: same_inputs_def)
    next
      case False
      with 1(2) have "f s (NextValue (fsolution s) i)
          (r @ [IndexToNode (manager s) (NextValue (fsolution s) i)]) = Some y"
        by (simp add: Let_def)
      from 1(1)[OF this] same False show ?thesis
        by (subst get_routes_while.simps) (simp add: same_inputs_def Let_def)
    qed
  qed
qed

lemma get_routes_while_same:
  "same_inputs s s' \<Longrightarrow> get_routes_while s' i r = get_routes_while s i r"
  by (rule option_eq_by_mono) (use get_routes_while_mono same_inputs_sym in blast)+


lemma evaluate_cost_while_mono:
  assumes "evaluate_cost_while s i d t = Some y"
  shows "same_inputs s s' \<longrightarrow> evaluate_cost_while s' i d t = Some y"
proof (rule evaluate_cost_while.raw_induct[OF _ assms], goal_cases)
  case (1 f s i d t y)
  show ?case
  proof
    assume same: "same_inputs s s'"
    from 1(2) same show "evaluate_cost_while s' i d t = Some y"
      by (subst evaluate_cost_while.simps)
         (auto simp: same_inputs_def Let_def split: if_splits option.splits dest!: 1(1)[rule_format])
  qed
qed

lemma evaluate_cost_while_same:
  "same_inputs s s' \<Longrightarrow> evaluate_cost_while s' i d t = evaluate_cost_while s i d t"
  by (rule option_eq_by_mono) (use evaluate_cost_while_mono same_inputs_sym in blast)+

lemma capacity_while_mono:
  assumes "capacity_while s i a = Some y"
  shows "same_inputs s s' \<longrightarrow> capacity_while s' i a = Some y"
proof (rule capacity_while.raw_induct[OF _ assms], goal_cases)
  case (1 f s i a y)
  show ?case
  proof
    assume same: "same_inputs s s'"
    from 1(2) same show "capacity_while s' i a = Some y"
      by (subst capacity_while.simps)
         (auto simp: same_inputs_def Let_def split: if_splits option.splits dest!: 1(1)[rule_format])
  qed
qed

lemma capacity_while_same:
  "same_inputs s s' \<Longrightarrow> capacity_while s' i a = capacity_while s i a"
  by (rule option_eq_by_mono) (use capacity_while_mono same_inputs_sym in blast)+

lemma time_window_while_mono:
  assumes "time_window_while s i lg = Some y"
  shows "same_inputs s s' \<longrightarrow> time_window_while s' i lg = Some y"
proof (rule time_window_while.raw_induct[OF _ assms], goal_cases)
  case (1 f s i lg y)
  show ?case
  proof
    assume same: "same_inputs s s'"
    from 1(2) same show "time_window_while s' i lg = Some y"
      by (subst time_window_while.simps)
         (auto simp: same_inputs_def Let_def split: if_splits option.splits dest!: 1(1)[rule_format])
  qed
qed

lemma time_window_while_same:
  "same_inputs s s' \<Longrightarrow> time_window_while s' i lg = time_window_while s i lg"
  by (rule option_eq_by_mono) (use time_window_while_mono same_inputs_sym in blast)+

lemma get_routes_for_same:
  "same_inputs s s' \<Longrightarrow> get_routes_for s' vs rs = get_routes_for s vs rs"
proof (induction vs arbitrary: rs)
  case Nil
  show ?case by simp
next
  case (Cons v vs)
  from Cons.prems have "model s' = model s" "manager s' = manager s"
    by (simp_all add: same_inputs_def)
  with Cons show ?case
    by (simp add: get_routes_while_same Let_def split: option.splits)
qed

lemma evaluate_cost_for_same:
  "same_inputs s s' \<Longrightarrow> evaluate_cost_for s' vs d t = evaluate_cost_for s vs d t"
proof (induction vs arbitrary: d t)
  case Nil
  show ?case by simp
next
  case (Cons v vs)
  from Cons.prems have "model s' = model s" "fsolution s' = fsolution s"
    by (simp_all add: same_inputs_def)
  with Cons show ?case
    by (simp add: evaluate_cost_while_same split: option.splits sum.splits prod.splits)
qed

lemma capacity_for_same:
  "same_inputs s s' \<Longrightarrow> capacity_for s' vs lg = capacity_for s vs lg"
proof (induction vs arbitrary: lg)
  case Nil
  show ?case by simp
next
  case (Cons v vs)
  from Cons.prems have "model s' = model s" "problem s' = problem s"
    by (simp_all add: same_inputs_def)
  with Cons show ?case
    by (simp add: capacity_while_same split: option.splits sum.splits)
qed

lemma time_window_for_same:
  "same_inputs s s' \<Longrightarrow> time_window_for s' vs lg = time_window_for s vs lg"
proof (induction vs arbitrary: lg)
  case Nil
  show ?case by simp
next
  case (Cons v vs)
  from Cons.prems have "model s' = model s"
    by (simp_all add: same_inputs_def)
  with Cons show ?case
    by (simp add: time_window_while_same split: option.splits sum.splits prod.splits bool.splits)
qed

section \<open>The loops along a route that ends\<close>


lemma customer_in_range:
  "nodes_in_range s \<Longrightarrow>
   py_getitem (customers (problem s)) (IndexToNode (manager s) j) = Some (node_customer s j)"
  by (simp add: nodes_in_range_def py_getitem_def node_customer_def)

lemma path_terminal_eq:
  "ends_within s n i \<Longrightarrow>
   path s n i @ [terminal s n i] = i # map (NextValue (fsolution s)) (path s n i)"
  by (induction n arbitrary: i) auto

lemma get_routes_while_path:
  "ends_within s n i \<Longrightarrow>
   get_routes_while s i r
   = Some (r @ map (IndexToNode (manager s)) (map (NextValue (fsolution s)) (path s n i)))"
proof (induction n arbitrary: i r)
  case 0
  then show ?case by (subst get_routes_while.simps) simp
next
  case (Suc n)
  show ?case
  proof (cases "IsEnd (model s) i")
    case True
    then show ?thesis by (subst get_routes_while.simps) simp
  next
    case False
    with Suc.prems have e: "ends_within s n (NextValue (fsolution s) i)" by simp
    from False Suc.IH[OF e] show ?thesis
      by (subst get_routes_while.simps) (simp add: Let_def)
  qed
qed

lemma evaluate_cost_while_path:
  assumes "nodes_in_range s"
  shows "ends_within s n i \<Longrightarrow>
   evaluate_cost_while s i d t
   = Some (Inr (terminal s n i,
                d + sum_list (map (CumulMin (fsolution s)) (path s n i)),
                t + sum_list (map (\<lambda>j. service_time (node_customer s j))
                                  (map (NextValue (fsolution s)) (path s n i)))))"
proof (induction n arbitrary: i d t)
  case 0
  then show ?case by (subst evaluate_cost_while.simps) simp
next
  case (Suc n)
  show ?case
  proof (cases "IsEnd (model s) i")
    case True
    then show ?thesis by (subst evaluate_cost_while.simps) simp
  next
    case False
    with Suc.prems have e: "ends_within s n (NextValue (fsolution s) i)" by simp
    from False Suc.IH[OF e] show ?thesis
      by (subst evaluate_cost_while.simps)
         (simp add: Let_def customer_in_range[OF assms])
  qed
qed

lemma capacity_while_path:
  assumes "nodes_in_range s"
  shows "ends_within s n i \<Longrightarrow>
   capacity_while s i a
   = Some (Inr (a + sum_list (map (\<lambda>j. demand (node_customer s j)) (path s n i))))"
proof (induction n arbitrary: i a)
  case 0
  then show ?case by (subst capacity_while.simps) simp
next
  case (Suc n)
  show ?case
  proof (cases "IsEnd (model s) i")
    case True
    then show ?thesis by (subst capacity_while.simps) simp
  next
    case False
    with Suc.prems have e: "ends_within s n (NextValue (fsolution s) i)" by simp
    with False Suc.IH[OF e] show ?thesis
      by (subst capacity_while.simps) (simp add: customer_in_range[OF assms])
  qed
qed

lemma time_window_while_path:
  assumes "nodes_in_range s"
  shows "ends_within s n i \<Longrightarrow>
   \<exists>lg'. time_window_while s i lg
   = Some (Inr (list_all (\<lambda>j. is_depot s j \<or> window_met s j) (path s n i), lg'))"
proof (induction n arbitrary: i lg)
  case 0
  then show ?case by (subst time_window_while.simps) simp
next
  case (Suc n)
  show ?case
  proof (cases "IsEnd (model s) i")
    case True
    then show ?thesis by (subst time_window_while.simps) simp
  next
    case False
    with Suc.prems have e: "ends_within s n (NextValue (fsolution s) i)" by simp
    from Suc.IH[OF e] False show ?thesis
      by (subst time_window_while.simps)
         (auto simp: Let_def customer_in_range[OF assms] is_depot_def window_met_def)
  qed
qed



lemma terminal_is_end: "ends_within s n i \<Longrightarrow> IsEnd (model s) (terminal s n i)"
  by (induction n arbitrary: i) auto

lemma route_cost_eq:
  assumes "ends_within s n (Start (model s) (int v))"
  shows "route_cost s n v
         = sum_list (map (CumulMin (fsolution s)) (path s n (Start (model s) (int v))))
           + CumulMin (fsolution s) (terminal s n (Start (model s) (int v)))
           + sum_list (map (\<lambda>j. service_time (node_customer s j))
                           (map (NextValue (fsolution s)) (path s n (Start (model s) (int v)))))"
proof -
  have "tl (route_indices s n v) = map (NextValue (fsolution s)) (path s n (Start (model s) (int v)))"
    unfolding route_indices_def path_terminal_eq[OF assms] by simp
  then show ?thesis
    by (simp add: route_cost_def) (simp add: route_indices_def)
qed

lemma evaluate_cost_for_path:
  assumes "nodes_in_range s"
  shows "\<forall>v \<in> set vs. ends_within s n (Start (model s) (int v)) \<Longrightarrow>
    \<exists>d' t'. evaluate_cost_for s vs d t = Some (Inr (d', t'))
            \<and> d' + t' = d + t + sum_list (map (route_cost s n) vs)"
proof (induction vs arbitrary: d t)
  case Nil
  show ?case by simp
next
  case (Cons v vs)
  from Cons.prems have e: "ends_within s n (Start (model s) (int v))" by simp
  from Cons.prems have rest: "\<forall>v \<in> set vs. ends_within s n (Start (model s) (int v))" by simp
  let ?i = "Start (model s) (int v)"
  let ?d = "d + sum_list (map (CumulMin (fsolution s)) (path s n ?i))
              + CumulMin (fsolution s) (terminal s n ?i)"
  let ?t = "t + sum_list (map (\<lambda>j. service_time (node_customer s j))
                              (map (NextValue (fsolution s)) (path s n ?i)))"
  from Cons.IH[OF rest, of ?d ?t] obtain d' t' where
    r: "evaluate_cost_for s vs ?d ?t = Some (Inr (d', t'))"
    and sum: "d' + t' = ?d + ?t + sum_list (map (route_cost s n) vs)" by blast
  have "evaluate_cost_for s (v # vs) d t = Some (Inr (d', t'))"
    using r by (simp add: evaluate_cost_while_path[OF assms e])
  moreover have "d' + t' = d + t + sum_list (map (route_cost s n) (v # vs))"
    using sum by (simp add: route_cost_eq[OF e])
  ultimately show ?case by blast
qed

lemma set_upt_all: "list_all P [0 ..< k] \<Longrightarrow> \<forall>v \<in> set [0 ..< k]. P v"
  by (simp add: list_all_iff)

lemma evaluate_cost_closed:
  assumes "nodes_in_range s" and "routes_end s n (length (vehicles (problem s)))"
  shows "evaluate_cost s
         = Some (Inr (total_cost s n, s\<lparr>total_driving_service_time := total_cost s n\<rparr>))"
proof -
  from assms(2) have "\<forall>v \<in> set [0 ..< length (vehicles (problem s))].
      ends_within s n (Start (model s) (int v))"
    unfolding routes_end_def by (rule set_upt_all)
  from evaluate_cost_for_path[OF assms(1) this, of 0 0] show ?thesis
    by (auto simp: evaluate_cost_def total_cost_def)
qed

lemma capacity_for_path:
  assumes "nodes_in_range s" and "vehicles (problem s) \<noteq> []"
  shows "\<forall>v \<in> set vs. ends_within s n (Start (model s) (int v)) \<Longrightarrow>
    \<exists>lg'. capacity_for s vs lg
          = Some (Inr (list_all (\<lambda>v. route_demand s n v \<le> capacity (vehicles (problem s) ! 0)) vs, lg'))"
proof (induction vs arbitrary: lg)
  case Nil
  show ?case by simp
next
  case (Cons v vs)
  from Cons.prems have e: "ends_within s n (Start (model s) (int v))" by simp
  from Cons.prems have rest: "\<forall>v \<in> set vs. ends_within s n (Start (model s) (int v))" by simp
  have v0: "py_getitem (vehicles (problem s)) 0 = Some (vehicles (problem s) ! 0)"
    using assms(2) by (simp add: py_getitem_def)
  have dem: "route_demand s n v
             = sum_list (map (\<lambda>j. demand (node_customer s j)) (path s n (Start (model s) (int v))))"
    by (simp add: route_demand_def route_indices_def)
  show ?case
  proof (cases "route_demand s n v \<le> capacity (vehicles (problem s) ! 0)")
    case True
    with Cons.IH[OF rest] show ?thesis
      by (simp add: capacity_while_path[OF assms(1) e] v0 dem)
  next
    case False
    then show ?thesis
      by (simp add: capacity_while_path[OF assms(1) e] v0 dem)
  qed
qed

lemma time_window_for_path:
  assumes "nodes_in_range s"
  shows "\<forall>v \<in> set vs. ends_within s n (Start (model s) (int v)) \<Longrightarrow>
    \<exists>lg'. time_window_for s vs lg
          = Some (Inr (list_all (\<lambda>v. list_all (\<lambda>j. is_depot s j \<or> window_met s j)
                                              (path s n (Start (model s) (int v)))) vs, lg'))"
proof (induction vs arbitrary: lg)
  case Nil
  show ?case by simp
next
  case (Cons v vs)
  from Cons.prems have e: "ends_within s n (Start (model s) (int v))" by simp
  from Cons.prems have rest: "\<forall>v \<in> set vs. ends_within s n (Start (model s) (int v))" by simp
  from time_window_while_path[OF assms e, of "lg @ [Info_time_window_start v]"]
  obtain lg1 where w: "time_window_while s (Start (model s) (int v)) (lg @ [Info_time_window_start v])
      = Some (Inr (list_all (\<lambda>j. is_depot s j \<or> window_met s j)
                            (path s n (Start (model s) (int v))), lg1))" by blast
  show ?case
  proof (cases "list_all (\<lambda>j. is_depot s j \<or> window_met s j) (path s n (Start (model s) (int v)))")
    case True
    with Cons.IH[OF rest, of "lg1 @ [Info_time_windows_ok v]"] w show ?thesis by simp
  next
    case False
    with w show ?thesis by simp
  qed
qed

section \<open>The example evaluated\<close>

lemma scenario_fields:
  "problem scenario = scenario_problem" "fsolution scenario = scenario_assignment"
  "model scenario = scenario_model" "manager scenario = scenario_manager"
  "routes scenario = []" "total_driving_time scenario = 0"
  "total_driving_service_time scenario = 0"
  by (simp_all add: scenario_def Solution_init_def)

lemmas scenario_defs =
  scenario_fields scenario_problem_def scenario_model_def
  scenario_assignment_def scenario_manager_def

lemma scenario_nodes_in_range: "nodes_in_range scenario"
  by (simp add: nodes_in_range_def scenario_defs)

lemma scenario_routes_end: "routes_end scenario 3 1"
  by (simp add: routes_end_def scenario_defs numeral_3_eq_3)

lemma scenario_route_indices: "route_indices scenario 3 0 = [0, 1, 2, 3]"
  by (simp add: route_indices_def scenario_defs numeral_3_eq_3)

lemma scenario_total_cost: "total_cost scenario 3 = 180"
  by (simp add: total_cost_def route_cost_def scenario_route_indices node_customer_def
                scenario_defs)

lemma scenario_terminal_time_sum: "terminal_time_sum scenario 3 = 80"
  by (simp add: terminal_time_sum_def scenario_route_indices scenario_defs)

section \<open>C1: what evaluate\_cost returns\<close>

text \<open>
  C1 (amended).  When every route of the vehicles of the problem reaches its end
  index and every node is a customer index, \<open>evaluate_cost\<close> returns the sum,
  over the vehicles, of the cumulative times of all indices of the route (the
  start index, every index visited and the end index) plus the service times
  of the customers at all indices after the start index.
\<close>

theorem evaluate_cost_sums_every_index:
  assumes "nodes_in_range s" and "routes_end s n (length (vehicles (problem s)))"
  shows "returned (evaluate_cost s) = Some (Inr (total_cost s n))"
proof -
  from assms(2) have "\<forall>v \<in> set [0 ..< length (vehicles (problem s))].
      ends_within s n (Start (model s) (int v))"
    unfolding routes_end_def by (rule set_upt_all)
  from evaluate_cost_for_path[OF assms(1) this, of 0 0]
  obtain d t where loop: "evaluate_cost_for s [0 ..< length (vehicles (problem s))] 0 0
        = Some (Inr (d, t))"
    and sum: "d + t = sum_list (map (route_cost s n) [0 ..< length (vehicles (problem s))])"
    by auto
  from loop have "evaluate_cost s
      = Some (Inr (d + t, s\<lparr>total_driving_service_time := d + t\<rparr>))"
    by (simp add: evaluate_cost_def)
  with sum show ?thesis by (simp add: returned_def total_cost_def)
qed

theorem evaluate_cost_sums_every_index_witness:
  "nodes_in_range scenario \<and> routes_end scenario 3 (length (vehicles (problem scenario)))
   \<and> returned (evaluate_cost scenario) = Some (Inr 180)"
proof -
  have len: "length (vehicles (problem scenario)) = 1" by (simp add: scenario_defs)
  have e: "routes_end scenario 3 (length (vehicles (problem scenario)))"
    using scenario_routes_end len by simp
  from evaluate_cost_sums_every_index[OF scenario_nodes_in_range e] scenario_nodes_in_range e
  show ?thesis by (simp add: scenario_total_cost)
qed

text \<open>
  On the example the cost returned is 180, while the cumulative time at the end
  index of the only route is 80.
\<close>

theorem evaluate_cost_not_terminal_sum:
  "returned (evaluate_cost scenario) = Some (Inr 180)
   \<and> terminal_time_sum scenario 3 = 80
   \<and> returned (evaluate_cost scenario) \<noteq> Some (Inr (terminal_time_sum scenario 3))"
proof -
  have len: "length (vehicles (problem scenario)) = 1" by (simp add: scenario_defs)
  have e: "routes_end scenario 3 (length (vehicles (problem scenario)))"
    using scenario_routes_end len by simp
  from evaluate_cost_closed[OF scenario_nodes_in_range e]
  show ?thesis by (simp add: scenario_total_cost scenario_terminal_time_sum returned_def)
qed

section \<open>The validator and the cost along routes that end\<close>

lemma time_window_while_false:
  assumes "time_window_while s i lg = Some y"
  shows "\<forall>lg'. y = Inr (False, lg') \<longrightarrow> lg' \<noteq> [] \<and> is_window_warning (last lg')"
proof (rule time_window_while.raw_induct[OF _ assms], goal_cases)
  case (1 f s i lg y)
  from 1(2) show ?case
    by (auto simp: Let_def is_window_warning_def split: if_splits option.splits dest!: 1(1))
qed

lemma time_window_for_false:
  "time_window_for s vs lg = Some (Inr (False, lg')) \<Longrightarrow>
   lg' \<noteq> [] \<and> is_window_warning (last lg')"
proof (induction vs arbitrary: lg)
  case Nil
  then show ?case by simp
next
  case (Cons v vs)
  show ?case
  proof (cases "time_window_while s (Start (model s) (int v)) (lg @ [Info_time_window_start v])")
    case None
    with Cons.prems show ?thesis by simp
  next
    case (Some y)
    show ?thesis
    proof (cases y)
      case (Inl e)
      with Some Cons.prems show ?thesis by simp
    next
      case (Inr r)
      obtain b lg1 where r: "r = (b, lg1)" by (cases r)
      show ?thesis
      proof (cases b)
        case True
        with Some Inr r Cons.prems Cons.IH show ?thesis by simp
      next
        case False
        with Some Inr r Cons.prems have "lg' = lg1" by simp
        with time_window_while_false[OF Some] Inr r False show ?thesis by simp
      qed
    qed
  qed
qed

lemma routes_end_all:
  "routes_end s n k \<Longrightarrow> \<forall>v \<in> set [0 ..< k]. ends_within s n (Start (model s) (int v))"
  unfolding routes_end_def by (rule set_upt_all)

lemma time_windows_ok_path:
  assumes "ends_are_depot s" and "routes_end s n (length (vehicles (problem s)))"
  shows "time_windows_ok s n
         = list_all (\<lambda>v. list_all (\<lambda>j. is_depot s j \<or> window_met s j)
                                   (path s n (Start (model s) (int v))))
                    [0 ..< length (vehicles (problem s))]"
proof -
  have "\<And>v. v \<in> set [0 ..< length (vehicles (problem s))] \<Longrightarrow>
          is_depot s (terminal s n (Start (model s) (int v)))"
    using assms(1) routes_end_all[OF assms(2)] terminal_is_end
    unfolding ends_are_depot_def by blast
  then show ?thesis
    unfolding time_windows_ok_def route_indices_def list_all_iff by auto
qed

lemma capacity_for_closed:
  assumes "nodes_in_range s"
    and "model_vehicles (model s) = length (vehicles (problem s))"
    and "routes_end s n (length (vehicles (problem s)))"
  shows "\<exists>lg'. capacity_for s [0 ..< model_vehicles (model s)] lg
               = Some (Inr (capacity_ok s n, lg'))"
proof (cases "vehicles (problem s) = []")
  case True
  with assms(2) show ?thesis by (simp add: capacity_ok_def)
next
  case False
  from capacity_for_path[OF assms(1) False routes_end_all[OF assms(3)], of lg] assms(2)
  show ?thesis by (simp add: capacity_ok_def)
qed

lemma feasible_closed:
  assumes "nodes_in_range s"
    and "model_vehicles (model s) = length (vehicles (problem s))"
    and "routes_end s n (length (vehicles (problem s)))"
    and "ends_are_depot s"
  shows "\<exists>lg s'. feasible s = Some (Inr (capacity_ok s n \<and> time_windows_ok s n, lg, s'))
           \<and> (s' = s \<or> s' = s\<lparr>total_driving_service_time := total_cost s n\<rparr>)
           \<and> (capacity_ok s n \<and> \<not> time_windows_ok s n \<longrightarrow> is_window_warning (last lg))"
proof -
  let ?lg0 = "[Info_instance (problem_id (problem s))]"
  from capacity_for_closed[OF assms(1-3), of ?lg0] obtain lg1 where
    c: "capacity_for s [0 ..< model_vehicles (model s)] ?lg0 = Some (Inr (capacity_ok s n, lg1))"
    by blast
  show ?thesis
  proof (cases "capacity_ok s n")
    case False
    with c show ?thesis by (simp add: feasible_def)
  next
    case True
    from time_window_for_path[OF assms(1) routes_end_all[OF assms(3)], of lg1]
    obtain lg2 where
      w: "time_window_for s [0 ..< length (vehicles (problem s))] lg1
          = Some (Inr (time_windows_ok s n, lg2))"
      unfolding time_windows_ok_path[OF assms(4) assms(3)] by blast
    show ?thesis
    proof (cases "time_windows_ok s n")
      case False
      with w time_window_for_false[of s _ lg1 lg2] have "is_window_warning (last lg2)" by simp
      with c w True False show ?thesis by (simp add: feasible_def)
    next
      case tw: True
      with c w True show ?thesis
        by (simp add: feasible_def evaluate_cost_closed[OF assms(1) assms(3)])
    qed
  qed
qed

lemma returned_Inr: "returned r = Some (Inr c) \<longleftrightarrow> (\<exists>s. r = Some (Inr (c, s)))"
proof (cases r)
  case None
  then show ?thesis by (simp add: returned_def)
next
  case (Some z)
  then show ?thesis by (cases z) (auto simp: returned_def)
qed

lemma returned_Inl: "returned r = Some (Inl e) \<longleftrightarrow> r = Some (Inl e)"
proof (cases r)
  case None
  then show ?thesis by (simp add: returned_def)
next
  case (Some z)
  then show ?thesis by (cases z) (auto simp: returned_def)
qed

lemma returned_None: "returned r = None \<longleftrightarrow> r = None"
  by (simp add: returned_def)

lemma evaluate_cost_returned_same:
  assumes "same_inputs s s'"
  shows "returned (evaluate_cost s') = returned (evaluate_cost s)"
proof -
  from assms have "problem s' = problem s" by (simp add: same_inputs_def)
  then show ?thesis
    by (simp add: returned_def evaluate_cost_def evaluate_cost_for_same[OF assms]
             split: option.splits sum.splits prod.splits)
qed

lemma evaluate_cost_state:
  "evaluate_cost s = Some (Inr (c, s1)) \<Longrightarrow> s1 = s\<lparr>total_driving_service_time := c\<rparr>"
  by (auto simp: evaluate_cost_def split: option.splits sum.splits prod.splits)

lemma same_inputs_update: "same_inputs s (s\<lparr>total_driving_service_time := c\<rparr>)"
  by (simp add: same_inputs_def)

lemma evaluate_cost_again:
  assumes "evaluate_cost s = Some (Inr (c, s1))"
  shows "evaluate_cost s1 = Some (Inr (c, s1))"
proof -
  have s1: "s1 = s\<lparr>total_driving_service_time := c\<rparr>" by (rule evaluate_cost_state[OF assms])
  then have same: "same_inputs s s1" by (simp add: same_inputs_update)
  from evaluate_cost_returned_same[OF same] assms
  have "returned (evaluate_cost s1) = Some (Inr c)" by (simp add: returned_def)
  then obtain s2 where r: "evaluate_cost s1 = Some (Inr (c, s2))"
    unfolding returned_Inr by blast
  from evaluate_cost_state[OF r] s1 have "s2 = s1" by simp
  with r show ?thesis by simp
qed

lemma feasible_state:
  "feasible s = Some (Inr (b, lg, s1)) \<Longrightarrow> same_inputs s s1"
  by (auto simp: feasible_def same_inputs_def
           split: option.splits sum.splits prod.splits bool.splits
           dest!: evaluate_cost_state)

lemma feasible_verdict_same:
  assumes "same_inputs s s'"
  shows "verdict (feasible s') = verdict (feasible s)"
proof -
  from assms have p: "problem s' = problem s" and m: "model s' = model s"
    by (simp_all add: same_inputs_def)
  have e: "returned (evaluate_cost s') = returned (evaluate_cost s)"
    by (rule evaluate_cost_returned_same[OF assms])
  show ?thesis
  proof (cases "evaluate_cost s")
    case None
    with e have "evaluate_cost s' = None" by (simp add: returned_def)
    with None show ?thesis
      by (simp add: verdict_def feasible_def p m capacity_for_same[OF assms]
            time_window_for_same[OF assms]
            split: option.splits sum.splits prod.splits bool.splits)
  next
    case (Some y)
    show ?thesis
    proof (cases y)
      case (Inl err)
      with Some e have "returned (evaluate_cost s') = Some (Inl err)"
        by (simp add: returned_def)
      then have "evaluate_cost s' = Some (Inl err)" unfolding returned_Inl .
      with Some Inl show ?thesis
        by (simp add: verdict_def feasible_def p m capacity_for_same[OF assms]
              time_window_for_same[OF assms]
              split: option.splits sum.splits prod.splits bool.splits)
    next
      case (Inr r)
      obtain c s1 where r: "r = (c, s1)" by (cases r)
      with Some Inr e have "returned (evaluate_cost s') = Some (Inr c)"
        by (simp add: returned_def)
      then obtain s2 where "evaluate_cost s' = Some (Inr (c, s2))"
        unfolding returned_Inr by blast
      with Some Inr r show ?thesis
        by (simp add: verdict_def feasible_def p m capacity_for_same[OF assms]
              time_window_for_same[OF assms]
              split: option.splits sum.splits prod.splits bool.splits)
    qed
  qed
qed

lemma decision_closed:
  assumes "nodes_in_range s"
    and "model_vehicles (model s) = length (vehicles (problem s))"
    and "routes_end s n (length (vehicles (problem s)))"
    and "ends_are_depot s"
  shows "decision (feasible s) = Some (Inr (capacity_ok s n \<and> time_windows_ok s n))"
  using feasible_closed[OF assms] by (auto simp: decision_def)

section \<open>The examples and the contract of the routing library\<close>

lemma mixed_fleet_fields:
  "problem mixed_fleet = mixed_fleet_problem" "fsolution mixed_fleet = mixed_fleet_assignment"
  "model mixed_fleet = mixed_fleet_model" "manager mixed_fleet = mixed_fleet_manager"
  by (simp_all add: mixed_fleet_def Solution_init_def)

lemmas mixed_fleet_defs =
  mixed_fleet_fields mixed_fleet_problem_def mixed_fleet_model_def
  mixed_fleet_assignment_def mixed_fleet_manager_def

lemma upt_2: "[0 ..< 2] = [0, Suc 0]"
  by (simp add: numeral_2_eq_2)

lemma mixed_fleet_route_indices:
  "route_indices mixed_fleet 2 0 = [0, 3]" "route_indices mixed_fleet 2 (Suc 0) = [1, 2, 4]"
  by (simp_all add: route_indices_def mixed_fleet_defs numeral_2_eq_2)

lemma mixed_fleet_contract:
  "nodes_in_range mixed_fleet"
  "model_vehicles (model mixed_fleet) = length (vehicles (problem mixed_fleet))"
  "routes_end mixed_fleet 2 (length (vehicles (problem mixed_fleet)))"
  "ends_are_depot mixed_fleet"
  by (simp_all add: nodes_in_range_def routes_end_def ends_are_depot_def is_depot_def
        mixed_fleet_defs numeral_2_eq_2)

lemma mixed_fleet_capacity_ok: "capacity_ok mixed_fleet 2"
  by (simp add: capacity_ok_def route_demand_def mixed_fleet_route_indices node_customer_def
        mixed_fleet_defs upt_2)

lemma mixed_fleet_time_windows_ok: "time_windows_ok mixed_fleet 2"
  by (simp add: time_windows_ok_def mixed_fleet_route_indices is_depot_def window_met_def
        node_customer_def mixed_fleet_defs upt_2)

lemma scenario_contract:
  "model_vehicles (model scenario) = length (vehicles (problem scenario))"
  "routes_end scenario 3 (length (vehicles (problem scenario)))"
  "ends_are_depot scenario"
  by (simp_all add: routes_end_def ends_are_depot_def is_depot_def
        scenario_defs numeral_3_eq_3)

lemma scenario_capacity_ok: "capacity_ok scenario 3"
  by (simp add: capacity_ok_def route_demand_def scenario_route_indices node_customer_def
        scenario_defs)

lemma scenario_time_windows_ok: "time_windows_ok scenario 3"
  by (simp add: time_windows_ok_def scenario_route_indices is_depot_def window_met_def
        node_customer_def scenario_defs)

lemma scenario_evaluate_cost:
  "evaluate_cost scenario = Some (Inr (180, scenario\<lparr>total_driving_service_time := 180\<rparr>))"
  using evaluate_cost_closed[OF scenario_nodes_in_range scenario_contract(2)]
  by (simp add: scenario_total_cost)

section \<open>C2: the capacity check\<close>

text \<open>
  C2.  The validator is meant to fail a route whose demand exceeds the capacity of
  the vehicle that owns it.  On the fleet of capacities 20 and 5 the route of
  vehicle 1 carries a demand of 10, above the capacity 5 of vehicle 1, and
  \<open>feasible\<close> returns \<open>True\<close>: every route is compared with the capacity of
  vehicle 0.
\<close>

theorem feasible_accepts_overloaded_vehicle:
  "decision (feasible mixed_fleet) = Some (Inr True)
   \<and> route_demand mixed_fleet 2 1 = 10
   \<and> capacity (vehicles (problem mixed_fleet) ! 1) = 5"
proof -
  have "route_demand mixed_fleet 2 1 = 10"
    by (simp add: route_demand_def mixed_fleet_route_indices node_customer_def mixed_fleet_defs)
  moreover have "capacity (vehicles (problem mixed_fleet) ! 1) = 5"
    by (simp add: mixed_fleet_defs)
  moreover have "decision (feasible mixed_fleet) = Some (Inr True)"
    using decision_closed[OF mixed_fleet_contract]
    by (simp add: mixed_fleet_capacity_ok mixed_fleet_time_windows_ok)
  ultimately show ?thesis by simp
qed

section \<open>C3: the time-window check\<close>

text \<open>
  C3.  For a Solution built as \<open>vehicle_routing_solver\<close> builds it (as many routes
  as vehicles, every route ending, every node a customer index, end indices on
  the depot), \<open>feasible\<close> returns, and returns \<open>True\<close> exactly when the capacity
  check passes and every index of every route whose node is not the depot has
  its cumulative time inside the window of its customer.  Depot indices are not
  checked.  When the capacity check passes and some window is missed the result
  is \<open>False\<close> and the log stops at the warning of that window.
\<close>

theorem feasible_checks_time_windows:
  assumes "nodes_in_range s"
    and "model_vehicles (model s) = length (vehicles (problem s))"
    and "routes_end s n (length (vehicles (problem s)))"
    and "ends_are_depot s"
  shows "decision (feasible s) = Some (Inr (capacity_ok s n \<and> time_windows_ok s n))
         \<and> (capacity_ok s n \<and> \<not> time_windows_ok s n \<longrightarrow>
              (\<exists>lg. verdict (feasible s) = Some (Inr (False, lg)) \<and> is_window_warning (last lg)))"
proof -
  from feasible_closed[OF assms] obtain lg s' where
    run: "feasible s = Some (Inr (capacity_ok s n \<and> time_windows_ok s n, lg, s'))"
    and stop: "capacity_ok s n \<and> \<not> time_windows_ok s n \<longrightarrow> is_window_warning (last lg)"
    by blast
  from run have d: "decision (feasible s) = Some (Inr (capacity_ok s n \<and> time_windows_ok s n))"
    by (simp add: decision_def)
  have "\<exists>lg. verdict (feasible s) = Some (Inr (False, lg)) \<and> is_window_warning (last lg)"
    if "capacity_ok s n \<and> \<not> time_windows_ok s n"
    using that run stop by (auto simp: verdict_def)
  with d show ?thesis by blast
qed

theorem feasible_checks_time_windows_witness:
  "nodes_in_range scenario
   \<and> model_vehicles (model scenario) = length (vehicles (problem scenario))
   \<and> routes_end scenario 3 (length (vehicles (problem scenario)))
   \<and> ends_are_depot scenario
   \<and> time_windows_ok scenario 3
   \<and> decision (feasible scenario) = Some (Inr True)"
  using feasible_checks_time_windows[OF scenario_nodes_in_range scenario_contract]
    scenario_nodes_in_range scenario_contract scenario_capacity_ok scenario_time_windows_ok
  by simp

text \<open>
  With the window of customer 2 tightened to [10, 50] the capacity check passes,
  the arrival at 70 misses the window and the verdict is \<open>False\<close>.
\<close>

lemma tight_scenario_rejected:
  "decision (feasible tight_scenario) = Some (Inr False)
   \<and> capacity_ok tight_scenario 3 \<and> \<not> time_windows_ok tight_scenario 3"
proof -
  have f: "problem tight_scenario = scenario_problem\<lparr>customers :=
        [\<lparr>cust_id = 0, customer_x = 0, customer_y = 0, demand = 0,
          ready_time = 0, due_date = 1000, service_time = 0\<rparr>,
         \<lparr>cust_id = 1, customer_x = 10, customer_y = 0, demand = 10,
          ready_time = 10, due_date = 50, service_time = 5\<rparr>,
         \<lparr>cust_id = 2, customer_x = 20, customer_y = 0, demand = 10,
          ready_time = 10, due_date = 50, service_time = 5\<rparr>]\<rparr>"
    "fsolution tight_scenario = scenario_assignment" "model tight_scenario = scenario_model"
    "manager tight_scenario = scenario_manager"
    by (simp_all add: tight_scenario_def scenario_fields)
  note d = f scenario_problem_def scenario_model_def scenario_assignment_def scenario_manager_def
  have r: "route_indices tight_scenario 3 0 = [0, 1, 2, 3]"
    by (simp add: route_indices_def d numeral_3_eq_3)
  have c: "nodes_in_range tight_scenario"
    "model_vehicles (model tight_scenario) = length (vehicles (problem tight_scenario))"
    "routes_end tight_scenario 3 (length (vehicles (problem tight_scenario)))"
    "ends_are_depot tight_scenario"
    by (simp_all add: nodes_in_range_def routes_end_def ends_are_depot_def is_depot_def d
          numeral_3_eq_3)
  have ok: "capacity_ok tight_scenario 3"
    by (simp add: capacity_ok_def route_demand_def r node_customer_def d)
  have no: "\<not> time_windows_ok tight_scenario 3"
    by (simp add: time_windows_ok_def r is_depot_def window_met_def node_customer_def d)
  from decision_closed[OF c] ok no show ?thesis by simp
qed

section \<open>C6: repeated calls of evaluate\_cost\<close>

text \<open>
  C6 (amended).  A call of \<open>evaluate_cost\<close> that returns \<open>c\<close> changes one field
  of the Solution, \<open>total_driving_service_time\<close>, which it sets to \<open>c\<close>; the
  problem, the solver objects, the routes and \<open>total_driving_time\<close> stay as they
  are.  A further call returns \<open>c\<close> again and leaves the Solution as it is, and
  so does a call on any Solution over the same problem and solver objects, the
  one left by \<open>feasible\<close> included.
\<close>

theorem evaluate_cost_repeatable:
  assumes "evaluate_cost s = Some (Inr (c, s1))"
  shows "s1 = s\<lparr>total_driving_service_time := c\<rparr>
         \<and> evaluate_cost s1 = Some (Inr (c, s1))
         \<and> (\<forall>s'. same_inputs s s' \<longrightarrow> returned (evaluate_cost s') = Some (Inr c))
         \<and> (\<forall>b lg s2. feasible s = Some (Inr (b, lg, s2))
                      \<longrightarrow> returned (evaluate_cost s2) = Some (Inr c))"
proof -
  have r: "returned (evaluate_cost s) = Some (Inr c)" using assms by (simp add: returned_def)
  have a: "returned (evaluate_cost s') = Some (Inr c)" if "same_inputs s s'" for s'
    using evaluate_cost_returned_same[OF that] r by simp
  have b: "returned (evaluate_cost s2) = Some (Inr c)"
    if "feasible s = Some (Inr (b, lg, s2))" for b lg s2
    using a[OF feasible_state[OF that]] .
  from evaluate_cost_state[OF assms] evaluate_cost_again[OF assms] a b show ?thesis by blast
qed

theorem evaluate_cost_repeatable_witness:
  "evaluate_cost scenario = Some (Inr (180, scenario\<lparr>total_driving_service_time := 180\<rparr>))
   \<and> evaluate_cost (scenario\<lparr>total_driving_service_time := 180\<rparr>)
     = Some (Inr (180, scenario\<lparr>total_driving_service_time := 180\<rparr>))"
  using evaluate_cost_repeatable[OF scenario_evaluate_cost] scenario_evaluate_cost by simp

text \<open>
  The first call on the example returns 180 and leaves 180 in
  \<open>total_driving_service_time\<close>, which held 0 before.
\<close>

theorem evaluate_cost_writes_field:
  "evaluate_cost scenario = Some (Inr (180, scenario\<lparr>total_driving_service_time := 180\<rparr>))
   \<and> total_driving_service_time (scenario\<lparr>total_driving_service_time := 180\<rparr>) = 180
   \<and> total_driving_service_time scenario = 0
   \<and> scenario\<lparr>total_driving_service_time := 180\<rparr> \<noteq> scenario"
proof -
  have "total_driving_service_time (scenario\<lparr>total_driving_service_time := 180\<rparr>)
        \<noteq> total_driving_service_time scenario"
    by (simp add: scenario_fields)
  then have "scenario\<lparr>total_driving_service_time := 180\<rparr> \<noteq> scenario" by metis
  with scenario_evaluate_cost show ?thesis by (simp add: scenario_fields)
qed

section \<open>C8: the validator is deterministic\<close>

text \<open>
  C8.  The verdict and the log of \<open>feasible\<close> depend on the problem and the solver
  objects only: two Solutions that agree on them get the same verdict and the same
  log (or both fail with the same error, or both do not return), whatever their
  accumulator fields hold.  In particular a second run on the Solution the first
  run leaves behind reports the same verdict and the same log.
\<close>

theorem feasible_deterministic:
  assumes "same_inputs s s'"
  shows "verdict (feasible s') = verdict (feasible s)
         \<and> (\<forall>b lg s1. feasible s = Some (Inr (b, lg, s1))
                      \<longrightarrow> verdict (feasible s1) = Some (Inr (b, lg)))"
proof -
  have "verdict (feasible s1) = Some (Inr (b, lg))"
    if "feasible s = Some (Inr (b, lg, s1))" for b lg s1
    using feasible_verdict_same[OF feasible_state[OF that]] that by (simp add: verdict_def)
  with feasible_verdict_same[OF assms] show ?thesis by blast
qed

theorem feasible_deterministic_witness:
  "same_inputs scenario (scenario\<lparr>routes := [[0, 1, 2, 0]], total_driving_time := 80\<rparr>)
   \<and> verdict (feasible (scenario\<lparr>routes := [[0, 1, 2, 0]], total_driving_time := 80\<rparr>))
     = verdict (feasible scenario)"
proof -
  have s: "same_inputs scenario (scenario\<lparr>routes := [[0, 1, 2, 0]], total_driving_time := 80\<rparr>)"
    by (simp add: same_inputs_def)
  from feasible_deterministic[OF s] s show ?thesis by simp
qed

section \<open>Route extraction\<close>

lemma get_routes_while_ends:
  assumes "get_routes_while s i r = Some y"
  shows "\<exists>n. ends_within s n i"
proof (rule get_routes_while.raw_induct[OF _ assms], goal_cases)
  case (1 f s i r y)
  show ?case
  proof (cases "IsEnd (model s) i")
    case True
    then have "ends_within s 0 i" by simp
    then show ?thesis ..
  next
    case False
    with 1(2) have "f s (NextValue (fsolution s) i)
        (r @ [IndexToNode (manager s) (NextValue (fsolution s) i)]) = Some y"
      by (simp add: Let_def)
    from 1(1)[OF this] obtain n where "ends_within s n (NextValue (fsolution s) i)" ..
    then have "ends_within s (Suc n) i" by simp
    then show ?thesis ..
  qed
qed

lemma get_routes_while_route:
  assumes "ends_within s n (Start (model s) (int v))"
  shows "get_routes_while s (Start (model s) (int v))
           [IndexToNode (manager s) (Start (model s) (int v))]
         = Some (route_nodes s n v)"
  unfolding get_routes_while_path[OF assms] route_nodes_def route_indices_def
    path_terminal_eq[OF assms]
  by simp

lemma get_routes_for_extracts:
  "get_routes_for s vs rs = Some rs1 \<Longrightarrow> \<exists>ext. extracts s vs ext"
proof (induction vs arbitrary: rs rs1)
  case Nil
  have "extracts s [] []" by (simp add: extracts_def)
  then show ?case ..
next
  case (Cons v vs)
  let ?i = "Start (model s) (int v)"
  from Cons.prems obtain r where
    w: "get_routes_while s ?i [IndexToNode (manager s) ?i] = Some r"
    and rest: "get_routes_for s vs (rs @ [r]) = Some rs1"
    by (auto simp: Let_def split: option.splits)
  from get_routes_while_ends[OF w] obtain n where e: "ends_within s n ?i" ..
  from get_routes_while_route[OF e] w have r: "r = route_nodes s n v" by simp
  from Cons.IH[OF rest] obtain ext where x: "extracts s vs ext" ..
  have "extracts s (v # vs) (r # ext)"
    unfolding extracts_def
  proof (intro conjI allI impI)
    show "length (r # ext) = length (v # vs)" using x by (simp add: extracts_def)
  next
    fix rs'
    from x have "get_routes_for s vs (rs' @ [r]) = Some ((rs' @ [r]) @ ext)"
      unfolding extracts_def by blast
    with w show "get_routes_for s (v # vs) rs' = Some (rs' @ r # ext)"
      by (simp add: Let_def)
  next
    fix k assume k: "k < length (v # vs)"
    show "\<exists>n. ends_within s n (Start (model s) (int ((v # vs) ! k)))
             \<and> (r # ext) ! k = route_nodes s n ((v # vs) ! k)"
    proof (cases k)
      case 0
      with e r show ?thesis by auto
    next
      case (Suc j)
      with k x show ?thesis by (simp add: extracts_def)
    qed
  qed
  then show ?case ..
qed

lemma extracts_same:
  assumes "extracts s vs ext" and "same_inputs s s'"
  shows "\<forall>rs. get_routes_for s' vs rs = Some (rs @ ext)"
  using assms by (simp add: extracts_def get_routes_for_same)

lemma get_routes_extracts:
  assumes "get_routes s = Some (r1, s1)"
  shows "\<exists>ext. extracts s [0 ..< model_vehicles (model s)] ext
               \<and> r1 = routes s @ ext \<and> s1 = s\<lparr>routes := r1\<rparr>"
proof -
  from assms obtain rs1 where
    f: "get_routes_for s [0 ..< model_vehicles (model s)] (routes s) = Some rs1"
    by (auto simp: get_routes_def split: option.splits)
  from get_routes_for_extracts[OF f] obtain ext where
    x: "extracts s [0 ..< model_vehicles (model s)] ext" ..
  then have "get_routes_for s [0 ..< model_vehicles (model s)] (routes s) = Some (routes s @ ext)"
    unfolding extracts_def by blast
  with assms have "r1 = routes s @ ext \<and> s1 = s\<lparr>routes := r1\<rparr>"
    by (auto simp: get_routes_def)
  with x show ?thesis by blast
qed

lemma get_routes_of_extracts:
  assumes "\<forall>rs. get_routes_for s [0 ..< model_vehicles (model s)] rs = Some (rs @ ext)"
  shows "get_routes s = Some (routes s @ ext, s\<lparr>routes := routes s @ ext\<rparr>)"
  using assms by (simp add: get_routes_def)

lemma get_routes_times_extracts:
  assumes "extracts s0 [0 ..< model_vehicles (model s0)] ext"
  shows "same_inputs s0 s \<Longrightarrow>
         \<exists>sk. get_routes_times k s = Some sk
              \<and> routes sk = routes s @ concat (replicate k ext)"
proof (induction k arbitrary: s)
  case 0
  show ?case by simp
next
  case (Suc k)
  from Suc.prems have m: "model s = model s0" by (simp add: same_inputs_def)
  from extracts_same[OF assms Suc.prems] m
  have g: "get_routes s = Some (routes s @ ext, s\<lparr>routes := routes s @ ext\<rparr>)"
    by (intro get_routes_of_extracts) simp
  from Suc.prems have "same_inputs s0 (s\<lparr>routes := routes s @ ext\<rparr>)"
    by (simp add: same_inputs_def)
  from Suc.IH[OF this] g show ?case by auto
qed

lemma same_inputs_refl: "same_inputs s s"
  by (simp add: same_inputs_def)

lemma path_at_end: "IsEnd (model s) i \<Longrightarrow> path s n i = []"
  by (cases n) simp_all

lemma terminal_at_end: "IsEnd (model s) i \<Longrightarrow> terminal s n i = i"
  by (cases n) simp_all

lemma route_nodes_anchored:
  assumes "ends_within s n (Start (model s) (int v))"
    and "is_depot s (Start (model s) (int v))"
    and "ends_are_depot s"
  shows "anchored s (route_nodes s n v)"
proof -
  let ?i = "Start (model s) (int v)"
  have "is_depot s (terminal s n ?i)"
    using terminal_is_end[OF assms(1)] assms(3) by (simp add: ends_are_depot_def)
  then have l: "last (route_nodes s n v) = depot (problem s)"
    by (simp add: route_nodes_def route_indices_def is_depot_def)
  have "route_nodes s n v
        = IndexToNode (manager s) ?i
          # map (IndexToNode (manager s)) (map (NextValue (fsolution s)) (path s n ?i))"
    unfolding route_nodes_def route_indices_def path_terminal_eq[OF assms(1)] by simp
  with assms(2) have "route_nodes s n v \<noteq> [] \<and> hd (route_nodes s n v) = depot (problem s)"
    by (simp add: is_depot_def)
  with l show ?thesis by (simp add: anchored_def)
qed

lemma route_nodes_serves_none:
  assumes "ends_within s n (Start (model s) (int v))"
    and "serves_none s v"
    and "is_depot s (Start (model s) (int v))"
    and "ends_are_depot s"
  shows "route_nodes s n v = [depot (problem s), depot (problem s)]"
proof -
  let ?i = "Start (model s) (int v)"
  from assms(2) have ne: "\<not> IsEnd (model s) ?i" and e: "IsEnd (model s) (NextValue (fsolution s) ?i)"
    by (simp_all add: serves_none_def)
  from assms(1) ne obtain m where n: "n = Suc m" by (cases n) auto
  from e assms(4) have "is_depot s (NextValue (fsolution s) ?i)"
    by (simp add: ends_are_depot_def)
  with assms(3) ne e show ?thesis
    by (simp add: n route_nodes_def route_indices_def path_at_end terminal_at_end is_depot_def)
qed

lemma save_to_file_entries:
  assumes "save_to_file s = Some (Inr (res, s2))"
  shows "map entry_vehicle (result_routes res) = [0 ..< length (routes s)]
         \<and> map entry_route (result_routes res) = routes s
         \<and> returned (evaluate_cost s) = Some (Inr (result_cost res))"
proof -
  have v: "map (entry_vehicle \<circ> (\<lambda>(vehicle_id, cs). \<lparr>entry_vehicle = vehicle_id, entry_route = cs\<rparr>))
             (enumerate 0 rs) = [0 ..< length rs]" for rs :: "int list list"
    by (simp add: enumerate_eq_zip map_fst_zip comp_def case_prod_unfold flip: map_map)
  have r: "map (entry_route \<circ> (\<lambda>(vehicle_id, cs). \<lparr>entry_vehicle = vehicle_id, entry_route = cs\<rparr>))
             (enumerate 0 rs) = rs" for rs :: "int list list"
    by (simp add: comp_def case_prod_unfold flip: map_map)
  from assms v r show ?thesis
    by (auto simp: save_to_file_def Let_def returned_def split: option.splits sum.splits)
qed

lemma scenario_get_routes:
  "get_routes scenario = Some ([[0, 1, 2, 0]], scenario\<lparr>routes := [[0, 1, 2, 0]]\<rparr>)"
proof -
  have e: "ends_within scenario 3 (Start (model scenario) (int 0))"
    by (simp add: scenario_defs numeral_3_eq_3)
  have "route_nodes scenario 3 0 = [0, 1, 2, 0]"
    by (simp add: route_nodes_def scenario_route_indices scenario_defs)
  with get_routes_while_route[OF e] show ?thesis
    by (simp add: get_routes_def scenario_fields scenario_model_def)
qed

lemma mixed_fleet_get_routes:
  "get_routes mixed_fleet = Some ([[0, 0], [0, 1, 0]], mixed_fleet\<lparr>routes := [[0, 0], [0, 1, 0]]\<rparr>)"
proof -
  have e0: "ends_within mixed_fleet 2 (Start (model mixed_fleet) (int 0))"
    and e1: "ends_within mixed_fleet 2 (Start (model mixed_fleet) (int (Suc 0)))"
    by (simp_all add: mixed_fleet_defs numeral_2_eq_2)
  have "route_nodes mixed_fleet 2 0 = [0, 0]" "route_nodes mixed_fleet 2 (Suc 0) = [0, 1, 0]"
    by (simp_all add: route_nodes_def mixed_fleet_route_indices mixed_fleet_defs)
  with get_routes_while_route[OF e0] get_routes_while_route[OF e1] show ?thesis
    by (simp add: get_routes_def mixed_fleet_fields mixed_fleet_model_def upt_2
          mixed_fleet_def Solution_init_def)
qed

lemma evaluate_cost_transfer:
  assumes "same_inputs s s'" and "evaluate_cost s = Some (Inr (c, s1))"
  shows "evaluate_cost s' = Some (Inr (c, s'\<lparr>total_driving_service_time := c\<rparr>))"
proof -
  from assms(2) have "returned (evaluate_cost s) = Some (Inr c)" by (simp add: returned_def)
  with evaluate_cost_returned_same[OF assms(1)]
  have "returned (evaluate_cost s') = Some (Inr c)" by simp
  then obtain s2 where r: "evaluate_cost s' = Some (Inr (c, s2))"
    unfolding returned_Inr by blast
  from evaluate_cost_state[OF r] r show ?thesis by simp
qed

lemma mixed_fleet_total_cost: "total_cost mixed_fleet 2 = 45"
  by (simp add: total_cost_def route_cost_def mixed_fleet_route_indices node_customer_def
        mixed_fleet_defs upt_2)

lemma mixed_fleet_evaluate_cost:
  "evaluate_cost mixed_fleet = Some (Inr (45, mixed_fleet\<lparr>total_driving_service_time := 45\<rparr>))"
  using evaluate_cost_closed[OF mixed_fleet_contract(1) mixed_fleet_contract(3)]
  by (simp add: mixed_fleet_total_cost)

lemma mixed_fleet_save_to_file:
  "save_to_file (mixed_fleet\<lparr>routes := [[0, 0], [0, 1, 0]]\<rparr>)
   = Some (Inr (\<lparr>result_routes = [\<lparr>entry_vehicle = 0, entry_route = [0, 0]\<rparr>,
                                    \<lparr>entry_vehicle = 1, entry_route = [0, 1, 0]\<rparr>],
                   result_cost = 45\<rparr>,
                 mixed_fleet\<lparr>routes := [[0, 0], [0, 1, 0]], total_driving_service_time := 45\<rparr>))"
proof -
  have "same_inputs mixed_fleet (mixed_fleet\<lparr>routes := [[0, 0], [0, 1, 0]]\<rparr>)"
    by (simp add: same_inputs_def)
  from evaluate_cost_transfer[OF this mixed_fleet_evaluate_cost] show ?thesis
    by (simp add: save_to_file_def)
qed

lemma mixed_fleet_serves_none: "serves_none mixed_fleet 0"
  by (simp add: serves_none_def mixed_fleet_defs)

lemma mixed_fleet_starts: "starts_are_depot mixed_fleet"
  by (simp add: starts_are_depot_def is_depot_def mixed_fleet_defs upt_2)

section \<open>C7: routes in the Result record\<close>

text \<open>
  C7 (amended).  On a fresh Solution whose start and end indices are on the
  depot, the routes \<open>get_routes\<close> extracts and \<open>save_to_file\<close> writes are one
  entry per vehicle, numbered from 0, each a non-empty list whose first and last
  elements are the depot index; the route of a vehicle that serves no customer is
  the depot index twice; the cost written is the value of \<open>evaluate_cost\<close>.
\<close>

theorem routes_depot_anchored:
  assumes "get_routes s = Some (rs, s1)"
    and "routes s = []"
    and "starts_are_depot s"
    and "ends_are_depot s"
    and "save_to_file s1 = Some (Inr (res, s2))"
  shows "map entry_vehicle (result_routes res) = [0 ..< model_vehicles (model s)]
         \<and> map entry_route (result_routes res) = rs
         \<and> list_all (anchored s) rs
         \<and> (\<forall>v < model_vehicles (model s).
               serves_none s v \<longrightarrow> rs ! v = [depot (problem s), depot (problem s)])
         \<and> returned (evaluate_cost s1) = Some (Inr (result_cost res))"
proof -
  let ?nv = "model_vehicles (model s)"
  from get_routes_extracts[OF assms(1)] assms(2) obtain ext where
    x: "extracts s [0 ..< ?nv] ext" and rs: "rs = ext" and s1: "s1 = s\<lparr>routes := rs\<rparr>"
    by auto
  from x have len: "length rs = ?nv" by (simp add: extracts_def rs)
  have each: "\<exists>n. ends_within s n (Start (model s) (int v)) \<and> rs ! v = route_nodes s n v"
    if "v < ?nv" for v
    using x that unfolding extracts_def rs by auto
  have dep: "is_depot s (Start (model s) (int v))" if "v < ?nv" for v
    using assms(3) that by (simp add: starts_are_depot_def list_all_iff)
  have anch: "anchored s (rs ! v)" if "v < ?nv" for v
    using each[OF that] route_nodes_anchored[OF _ dep[OF that] assms(4)] by auto
  have a: "list_all (anchored s) rs"
    unfolding list_all_length using anch len by simp
  have b: "rs ! v = [depot (problem s), depot (problem s)]"
    if "v < ?nv" "serves_none s v" for v
    using each[OF that(1)] route_nodes_serves_none[OF _ that(2) dep[OF that(1)] assms(4)]
    by auto
  from save_to_file_entries[OF assms(5)] s1 len a b show ?thesis by simp
qed

theorem routes_depot_anchored_witness:
  "get_routes mixed_fleet
     = Some ([[0, 0], [0, 1, 0]], mixed_fleet\<lparr>routes := [[0, 0], [0, 1, 0]]\<rparr>)
   \<and> routes mixed_fleet = []
   \<and> starts_are_depot mixed_fleet
   \<and> ends_are_depot mixed_fleet
   \<and> save_to_file (mixed_fleet\<lparr>routes := [[0, 0], [0, 1, 0]]\<rparr>)
     = Some (Inr (\<lparr>result_routes = [\<lparr>entry_vehicle = 0, entry_route = [0, 0]\<rparr>,
                                      \<lparr>entry_vehicle = 1, entry_route = [0, 1, 0]\<rparr>],
                     result_cost = 45\<rparr>,
                   mixed_fleet\<lparr>routes := [[0, 0], [0, 1, 0]], total_driving_service_time := 45\<rparr>))
   \<and> list_all (anchored mixed_fleet) [[0, 0], [0, 1, 0]]
   \<and> serves_none mixed_fleet 0"
proof -
  have r: "routes mixed_fleet = []" by (simp add: mixed_fleet_def Solution_init_def)
  from routes_depot_anchored[OF mixed_fleet_get_routes r mixed_fleet_starts
      mixed_fleet_contract(4) mixed_fleet_save_to_file]
  have "list_all (anchored mixed_fleet) [[0, 0], [0, 1, 0]]" by blast
  with mixed_fleet_get_routes r mixed_fleet_starts mixed_fleet_contract(4)
    mixed_fleet_save_to_file mixed_fleet_serves_none
  show ?thesis by blast
qed

text \<open>
  Vehicle 0 of the two-vehicle example serves no customer; its route is the depot
  index twice, neither the depot index alone nor the empty list.
\<close>

theorem empty_route_is_depot_twice:
  "map_option fst (get_routes mixed_fleet) = Some [[0, 0], [0, 1, 0]]
   \<and> serves_none mixed_fleet 0
   \<and> depot (problem mixed_fleet) = 0"
  using mixed_fleet_get_routes mixed_fleet_serves_none by (simp add: mixed_fleet_defs)

section \<open>C9: get\_routes accumulates\<close>

text \<open>
  C9.  A call of \<open>get_routes\<close> that returns appends one route per vehicle of
  the model to \<open>self.routes\<close>.  Every further call returns too and appends the
  same routes again: after \<open>k\<close> calls the list has grown by \<open>k\<close> copies of them,
  which is \<open>k\<close> times the number of vehicles on a fresh Solution, and the second
  call returns the list of the first followed by the same routes once more, a
  longer list as soon as there is a vehicle.
\<close>

theorem get_routes_accumulates:
  assumes "get_routes s = Some (r1, s1)"
  shows "length r1 = length (routes s) + model_vehicles (model s)
         \<and> (\<forall>k. \<exists>sk. get_routes_times k s = Some sk
                 \<and> routes sk = routes s @ concat (replicate k (drop (length (routes s)) r1))
                 \<and> length (routes sk) = length (routes s) + k * model_vehicles (model s))
         \<and> (\<exists>r2 s2. get_routes s1 = Some (r2, s2)
                 \<and> r2 = r1 @ drop (length (routes s)) r1
                 \<and> length r2 = length r1 + model_vehicles (model s)
                 \<and> (0 < model_vehicles (model s) \<longrightarrow> r2 \<noteq> r1))"
proof -
  from get_routes_extracts[OF assms] obtain ext where
    x: "extracts s [0 ..< model_vehicles (model s)] ext"
    and r1: "r1 = routes s @ ext" and s1: "s1 = s\<lparr>routes := r1\<rparr>" by blast
  from x have len: "length ext = model_vehicles (model s)" by (simp add: extracts_def)
  from r1 have d: "drop (length (routes s)) r1 = ext" by simp
  have a: "length r1 = length (routes s) + model_vehicles (model s)" using r1 len by simp
  have b: "\<exists>sk. get_routes_times k s = Some sk
                 \<and> routes sk = routes s @ concat (replicate k ext)
                 \<and> length (routes sk) = length (routes s) + k * model_vehicles (model s)" for k
  proof -
    from get_routes_times_extracts[OF x same_inputs_refl, of k] obtain sk where
      sk: "get_routes_times k s = Some sk" "routes sk = routes s @ concat (replicate k ext)"
      by blast
    have "length (concat (replicate k ext)) = k * length ext"
      by (induction k) simp_all
    with sk len show ?thesis by simp
  qed
  have same: "same_inputs s s1" using s1 by (simp add: same_inputs_def)
  then have m: "model s1 = model s" by (simp add: same_inputs_def)
  from extracts_same[OF x same] m
  have "get_routes s1 = Some (routes s1 @ ext, s1\<lparr>routes := routes s1 @ ext\<rparr>)"
    by (intro get_routes_of_extracts) simp
  moreover have "routes s1 = r1" using s1 by simp
  ultimately have c: "\<exists>r2 s2. get_routes s1 = Some (r2, s2)
                 \<and> r2 = r1 @ ext
                 \<and> length r2 = length r1 + model_vehicles (model s)
                 \<and> (0 < model_vehicles (model s) \<longrightarrow> r2 \<noteq> r1)"
    using len by auto
  from a b c show ?thesis unfolding d by blast
qed

theorem get_routes_accumulates_witness:
  "get_routes scenario = Some ([[0, 1, 2, 0]], scenario\<lparr>routes := [[0, 1, 2, 0]]\<rparr>)
   \<and> map_option fst (get_routes (scenario\<lparr>routes := [[0, 1, 2, 0]]\<rparr>))
     = Some [[0, 1, 2, 0], [0, 1, 2, 0]]"
  using get_routes_accumulates[OF scenario_get_routes] scenario_get_routes
  by (auto simp: scenario_fields)

section \<open>The file-loading Problem\<close>

lemma customer_rows_Cons:
  "customer_rows skiprows k (line # rest)
   = (if \<not> int k \<le> skiprows \<and> length line = 7 then [line] else [])
     @ customer_rows skiprows (Suc k) rest"
  by (simp add: customer_rows_def)

lemma customer_rows_Nil: "customer_rows skiprows k [] = []"
  by (simp add: customer_rows_def)

lemma read_rows_length:
  "read_rows py_int skiprows k rows (cs, veh, cap) = Inr (cs', veh', cap') \<Longrightarrow>
   length cs' = length cs + length (customer_rows skiprows k rows)"
proof (induction rows arbitrary: k cs veh cap)
  case Nil
  then show ?case by (simp add: customer_rows_Nil)
next
  case (Cons line rest)
  from Cons.prems show ?case
    by (auto simp: customer_rows_Cons split: if_splits sum.splits prod.splits
             dest!: Cons.IH)
qed

lemma read_rows_parse:
  "rows_parse py_int skiprows k rows \<Longrightarrow>
   \<exists>cs' veh' cap'. read_rows py_int skiprows k rows (cs, veh, cap) = Inr (cs', veh', cap')"
proof (induction rows arbitrary: k cs veh cap)
  case Nil
  show ?case by simp
next
  case (Cons line rest)
  from Cons.prems have rest: "rows_parse py_int skiprows (Suc k) rest"
    and fleet: "k = 4 \<longrightarrow> \<not> isl (parse_fleet py_int line)"
    and cust: "\<not> int k \<le> skiprows \<and> length line = 7 \<longrightarrow> \<not> isl (parse_customer py_int line)"
    by (simp_all add: rows_parse_def)
  have "\<exists>vc. (if k = 4
         then (case parse_fleet py_int line of Inl e \<Rightarrow> Inl e | Inr (a, b) \<Rightarrow> Inr (Some a, Some b))
         else Inr (veh, cap)) = (Inr vc :: error + int option \<times> int option)"
  proof (cases "k = 4")
    case True
    with fleet obtain ab where "parse_fleet py_int line = Inr ab"
      by (cases "parse_fleet py_int line") auto
    with True show ?thesis by (cases ab) simp
  next
    case False
    then show ?thesis by simp
  qed
  then obtain vc where
    f: "(if k = 4
         then (case parse_fleet py_int line of Inl e \<Rightarrow> Inl e | Inr (a, b) \<Rightarrow> Inr (Some a, Some b))
         else Inr (veh, cap)) = (Inr vc :: error + int option \<times> int option)" ..
  obtain veh1 cap1 where vc: "vc = (veh1, cap1)" by (cases vc)
  show ?case
  proof (cases "\<not> int k \<le> skiprows \<and> length line = 7")
    case True
    with cust obtain c where c: "parse_customer py_int line = Inr c"
      by (cases "parse_customer py_int line") auto
    from True have "line \<noteq> []" by auto
    with Cons.IH[OF rest, of "cs @ [c]" veh1 cap1] True c f vc show ?thesis
      by simp
  next
    case False
    with Cons.IH[OF rest, of cs veh1 cap1] f vc show ?thesis
      by auto
  qed
qed

lemma collect_length: "collect f ks = Inr vs \<Longrightarrow> length vs = length ks"
  by (induction ks arbitrary: vs) (auto split: sum.splits)

lemma collect_nth:
  "collect f ks = Inr vs \<Longrightarrow> k < length ks \<Longrightarrow> f (ks ! k) = Inr (vs ! k)"
proof (induction ks arbitrary: vs k)
  case Nil
  then show ?case by simp
next
  case (Cons a ks)
  from Cons.prems(1) obtain v vs' where
    a: "f a = Inr v" and r: "collect f ks = Inr vs'" and vs: "vs = v # vs'"
    by (auto split: sum.splits)
  show ?case
  proof (cases k)
    case 0
    with a vs show ?thesis by simp
  next
    case (Suc m)
    with Cons.prems(2) Cons.IH[OF r, of m] vs show ?thesis by simp
  qed
qed

lemma collect_cong:
  "(\<And>k. k \<in> set ks \<Longrightarrow> f k = g k) \<Longrightarrow> collect f ks = collect g ks"
proof (induction ks)
  case Nil
  show ?case by simp
next
  case (Cons a ks)
  from Cons.prems have "f a = g a" by simp
  moreover from Cons.IH Cons.prems have "collect f ks = collect g ks" by simp
  ultimately show ?case by (simp cong: sum.case_cong)
qed

lemma dom_dict_of_list: "dom (dict_of_list vs) = {k. 0 \<le> k \<and> k < int (length vs)}"
  by (auto simp: dict_of_list_def dom_def)


lemma travel_time_of_Inr:
  assumes "travel_time_of ops cs = Inr t"
  shows "\<exists>m. t = dict_of_list (map dict_of_list m) \<and> length m = length cs
           \<and> (\<forall>i < length cs. length (m ! i) = length cs
                 \<and> (\<forall>j < length cs. travel_entry ops cs i j = Inr (m ! i ! j)))"
proof -
  let ?row = "\<lambda>i. collect (\<lambda>j. travel_entry ops cs i j) [0 ..< length cs]"
  from assms obtain m where
    c: "collect ?row [0 ..< length cs] = Inr m" and t: "t = dict_of_list (map dict_of_list m)"
    by (auto simp: travel_time_of_def split: sum.splits)
  from collect_length[OF c] have len: "length m = length cs" by simp
  have "length (m ! i) = length cs \<and> (\<forall>j < length cs. travel_entry ops cs i j = Inr (m ! i ! j))"
    if i: "i < length cs" for i
  proof -
    from collect_nth[OF c, of i] i have r: "?row i = Inr (m ! i)" by simp
    from collect_length[OF r] have "length (m ! i) = length cs" by simp
    moreover have "travel_entry ops cs i j = Inr (m ! i ! j)" if "j < length cs" for j
      using collect_nth[OF r, of j] that by simp
    ultimately show ?thesis by blast
  qed
  with t len show ?thesis by blast
qed

lemma FileProblem_init_customers:
  assumes "FileProblem_init ops py_int rows skiprows = Inr p"
  shows "\<exists>cs veh cap d t.
           read_rows py_int skiprows 0 rows ([], None, None) = Inr (d # cs, veh, cap)
           \<and> travel_time_of ops ((d # cs) @ [d]) = Inr t
           \<and> p = \<lparr>fp_customers = (d # cs) @ [d], fp_vehicles = veh, fp_capacity = cap,
                   fp_depot = d, travel_time = t\<rparr>"
  using assms
  by (auto simp: FileProblem_init_def split: sum.splits prod.splits list.splits)

lemma FileProblem_init_matrix:
  assumes "FileProblem_init ops py_int rows skiprows = Inr p"
  shows "\<exists>m. travel_time p = dict_of_list (map dict_of_list m)
           \<and> length m = no_customers p
           \<and> (\<forall>i < no_customers p. length (m ! i) = no_customers p
                 \<and> (\<forall>j < no_customers p.
                       travel_entry ops (fp_customers p) i j = Inr (m ! i ! j)))"
proof -
  from FileProblem_init_customers[OF assms] obtain cs t where
    t: "travel_time_of ops cs = Inr t" and c: "fp_customers p = cs" and tt: "travel_time p = t"
    by auto
  from travel_time_of_Inr[OF t] c tt show ?thesis by (simp add: no_customers_def)
qed




lemma distance_placement:
  "placement a = placement a' \<Longrightarrow> placement b = placement b' \<Longrightarrow>
   distance ops a b = distance ops a' b'"
proof -
  assume "placement a = placement a'" and "placement b = placement b'"
  then have "fc_x b - fc_x a = fc_x b' - fc_x a'" and "fc_y b - fc_y a = fc_y b' - fc_y a'"
    by (simp_all add: placement_def)
  then show ?thesis unfolding distance_def by (simp cong: option.case_cong)
qed

lemma travel_entry_placement:
  assumes "map placement cs = map placement cs'" and "i < length cs" and "j < length cs"
  shows "travel_entry ops cs i j = travel_entry ops cs' i j"
proof -
  from assms(1) have len: "length cs = length cs'" by (metis length_map)
  from assms have pi: "placement (cs ! i) = placement (cs' ! i)"
    and pj: "placement (cs ! j) = placement (cs' ! j)"
    using len by (metis nth_map)+
  from pi have "fc_service_time (cs ! i) = fc_service_time (cs' ! i)"
    by (simp add: placement_def)
  with distance_placement[OF pi pj, of ops] show ?thesis
    by (simp add: travel_entry_def cong: sum.case_cong option.case_cong)
qed

lemma travel_time_of_placement:
  assumes "map placement cs = map placement cs'"
  shows "travel_time_of ops cs = travel_time_of ops cs'"
proof -
  from assms have len: "length cs = length cs'" by (metis length_map)
  have "collect (\<lambda>i. collect (\<lambda>j. travel_entry ops cs i j) [0 ..< length cs]) [0 ..< length cs]
      = collect (\<lambda>i. collect (\<lambda>j. travel_entry ops cs' i j) [0 ..< length cs]) [0 ..< length cs]"
    by (intro collect_cong) (simp add: travel_entry_placement[OF assms])
  with len show ?thesis by (simp add: travel_time_of_def)
qed

lemma collect_error: "collect f ks = Inl e \<Longrightarrow> \<exists>k \<in> set ks. f k = Inl e"
  by (induction ks) (auto split: sum.splits)

lemma travel_entry_error:
  "travel_entry ops cs i j = Inl e \<Longrightarrow> e = OverflowError \<or> e = ValueError"
  by (auto simp: travel_entry_def distance_def split: if_splits sum.splits option.splits)

lemma travel_time_of_error:
  assumes "travel_time_of ops cs = Inl e"
  shows "e = OverflowError \<or> e = ValueError"
proof -
  from assms have "collect (\<lambda>i. collect (\<lambda>j. travel_entry ops cs i j) [0 ..< length cs])
                     [0 ..< length cs] = Inl e"
    by (auto simp: travel_time_of_def split: sum.splits)
  from collect_error[OF this] obtain i where
    "collect (\<lambda>j. travel_entry ops cs i j) [0 ..< length cs] = Inl e" by blast
  from collect_error[OF this] obtain j where "travel_entry ops cs i j = Inl e" by blast
  then show ?thesis by (rule travel_entry_error)
qed

lemma FileProblem_init_no_rows:
  assumes "customer_rows skiprows 0 rows = []"
  shows "isl (FileProblem_init ops py_int rows skiprows)"
proof (cases "read_rows py_int skiprows 0 rows ([], None, None)")
  case (Inl e)
  then show ?thesis by (simp add: FileProblem_init_def)
next
  case (Inr r)
  obtain cs veh cap where r: "r = (cs, veh, cap)" by (cases r)
  from read_rows_length[of py_int skiprows 0 rows "[]" None None cs veh cap] Inr r assms
  have "cs = []" by simp
  with Inr r show ?thesis by (simp add: FileProblem_init_def)
qed

lemma FileProblem_init_IndexError:
  assumes "rows_parse py_int skiprows 0 rows"
  shows "FileProblem_init ops py_int rows skiprows = Inl IndexError
           \<longleftrightarrow> customer_rows skiprows 0 rows = []"
proof -
  from read_rows_parse[OF assms, of "[]" None None] obtain cs veh cap where
    r: "read_rows py_int skiprows 0 rows ([], None, None) = Inr (cs, veh, cap)" by blast
  from read_rows_length[OF r] have "length cs = length (customer_rows skiprows 0 rows)" by simp
  then have e: "cs = [] \<longleftrightarrow> customer_rows skiprows 0 rows = []" by (metis length_0_conv)
  have ne: "travel_time_of ops xs \<noteq> Inl IndexError" for xs
    using travel_time_of_error[of ops xs IndexError] by auto
  show ?thesis
  proof (cases cs)
    case Nil
    with r e show ?thesis by (simp add: FileProblem_init_def)
  next
    case (Cons d cs')
    with r e ne[of "cs @ [d]"] show ?thesis
      by (auto simp: FileProblem_init_def split: sum.splits)
  qed
qed

lemma FileProblem_init_placement:
  assumes "read_rows py_int skiprows 0 rows ([], None, None) = Inr (cs, veh, cap)"
    and "read_rows py_int' skiprows' 0 rows' ([], None, None) = Inr (cs', veh', cap')"
    and "map placement cs = map placement cs'"
  shows "isl (FileProblem_init ops py_int rows skiprows)
         \<longleftrightarrow> isl (FileProblem_init ops py_int' rows' skiprows')"
proof (cases cs)
  case Nil
  with assms(3) have "cs' = []" by simp
  with Nil assms(1,2) show ?thesis by (simp add: FileProblem_init_def)
next
  case (Cons d ds)
  with assms(3) obtain d' ds' where c': "cs' = d' # ds'" and p: "placement d = placement d'"
    by (cases cs') auto
  from assms(3) p Cons c' have "map placement (cs @ [d]) = map placement (cs' @ [d'])" by simp
  from travel_time_of_placement[OF this, of ops] assms(1,2) Cons c' show ?thesis
    by (auto simp: FileProblem_init_def split: sum.splits)
qed

lemma example_tokens:
  "example_int ''0'' = Some 0" "example_int ''1'' = Some 1" "example_int ''3'' = Some 3"
  "example_int ''4'' = Some 4" "example_int ''5'' = Some 5" "example_int ''10'' = Some 10"
  "example_int ''200'' = Some 200" "example_int ''-10'' = Some (- 10)"
  by (simp_all add: example_int_def)

lemma example_read_rows:
  "read_rows example_int 0 0 example_rows ([], None, None)
   = Inr ([example_depot, example_customer], Some 1, Some 0)"
  by (simp add: example_rows_def parse_fleet_def parse_customer_def example_tokens
        example_depot_def example_customer_def)

lemma sound_read_rows:
  "read_rows example_int 0 0 sound_rows ([], None, None)
   = Inr ([example_depot, example_customer\<lparr>fc_due_date := 200\<rparr>], Some 1, Some 200)"
  by (simp add: sound_rows_def parse_fleet_def parse_customer_def example_tokens
        example_depot_def example_customer_def)

lemma example_float_fields:
  "float_of_int example_float k = (if \<bar>k\<bar> \<le> 2 ^ 53 then Some k else None)"
  "math_pow2 example_float a = (if \<bar>a\<bar> \<le> 2 ^ 26 then Some (a * a) else None)"
  "float_add example_float a b = a + b"
  "math_sqrt example_float a = (if a = 0 then Some 0 else if a = 25 then Some 5 else None)"
  "float_nonneg example_float a = (0 \<le> a)"
  by (simp_all add: example_float_def)

lemma example_distances:
  "distance example_float example_depot example_customer = Inr 5"
  "distance example_float example_customer example_depot = Inr 5"
  "distance example_float example_depot example_depot = Inr 0"
  by (simp_all add: distance_def example_float_fields example_depot_def example_customer_def)

lemma upt_3: "[0 ..< 3] = [0, Suc 0, Suc (Suc 0)]"
  by (simp add: numeral_3_eq_3)

lemma example_travel_time_of:
  "travel_time_of example_float [example_depot, example_customer, example_depot]
   = Inr (dict_of_list (map dict_of_list example_matrix))"
proof -
  have s: "fc_service_time example_depot = 0" "fc_service_time example_customer = - 10"
    by (simp_all add: example_depot_def example_customer_def)
  show ?thesis
    by (simp add: travel_time_of_def upt_3 travel_entry_def example_distances s
          example_float_fields example_matrix_def)
qed

lemma example_init:
  "FileProblem_init example_float example_int example_rows 0 = Inr example_file_problem"
  by (simp add: FileProblem_init_def example_read_rows example_travel_time_of
        example_file_problem_def)

lemma example_customer_rows: "length (customer_rows 0 0 example_rows) = 2"
  by (simp add: customer_rows_def example_rows_def)

lemma example_rows_parse: "rows_parse example_int 0 0 example_rows"
  by (simp add: rows_parse_def example_rows_def parse_fleet_def parse_customer_def example_tokens)



section \<open>C4: travel times\<close>




section \<open>C5: what construction rejects\<close>

text \<open>
  C5 (amended).  Neither constructor looks at the values it stores.  The pydantic
  \<open>Problem\<close> is built from any vehicles, customers, id and depot.  The
  file-loading \<open>Problem\<close> fails when the file has no customer row, and when every
  token it converts is an integer it raises \<open>IndexError\<close> exactly then.  Whether
  it fails on two files that are read to the end depends on the positions and
  the service times of the customers alone (through the arithmetic of the
  matrix): the capacity, the demands and the time windows play no part.
\<close>

theorem construction_checks_no_values:
  "Problem_new vs cs ident d
     = Inr \<lparr>vehicles = vs, customers = cs, problem_id = ident, depot = d\<rparr>
   \<and> (customer_rows skiprows 0 rows = [] \<longrightarrow> isl (FileProblem_init ops py_int rows skiprows))
   \<and> (rows_parse py_int skiprows 0 rows \<longrightarrow>
        (FileProblem_init ops py_int rows skiprows = Inl IndexError
           \<longleftrightarrow> customer_rows skiprows 0 rows = []))
   \<and> (\<forall>cs1 veh1 cap1 cs2 veh2 cap2.
         read_rows py_int skiprows 0 rows ([], None, None) = Inr (cs1, veh1, cap1)
         \<longrightarrow> read_rows py_int' skiprows' 0 rows' ([], None, None) = Inr (cs2, veh2, cap2)
         \<longrightarrow> map placement cs1 = map placement cs2
         \<longrightarrow> (isl (FileProblem_init ops py_int rows skiprows)
                \<longleftrightarrow> isl (FileProblem_init ops py_int' rows' skiprows')))"
proof -
  have a: "Problem_new vs cs ident d
     = Inr \<lparr>vehicles = vs, customers = cs, problem_id = ident, depot = d\<rparr>"
    by (simp add: Problem_new_def)
  have b: "isl (FileProblem_init ops py_int rows skiprows)"
    if "customer_rows skiprows 0 rows = []"
    using that by (rule FileProblem_init_no_rows)
  have c: "FileProblem_init ops py_int rows skiprows = Inl IndexError
           \<longleftrightarrow> customer_rows skiprows 0 rows = []"
    if "rows_parse py_int skiprows 0 rows"
    using that by (rule FileProblem_init_IndexError)
  have d: "isl (FileProblem_init ops py_int rows skiprows)
                \<longleftrightarrow> isl (FileProblem_init ops py_int' rows' skiprows')"
    if "read_rows py_int skiprows 0 rows ([], None, None) = Inr (cs1, veh1, cap1)"
      "read_rows py_int' skiprows' 0 rows' ([], None, None) = Inr (cs2, veh2, cap2)"
      "map placement cs1 = map placement cs2"
    for cs1 veh1 cap1 cs2 veh2 cap2
    using that by (rule FileProblem_init_placement)
  from a b c d show ?thesis by blast
qed

theorem construction_checks_no_values_witness:
  "customer_rows 0 0 [] = []
   \<and> rows_parse example_int 0 0 []
   \<and> FileProblem_init example_float example_int [] 0 = Inl IndexError
   \<and> read_rows example_int 0 0 example_rows ([], None, None)
     = Inr ([example_depot, example_customer], Some 1, Some 0)
   \<and> read_rows example_int 0 0 sound_rows ([], None, None)
     = Inr ([example_depot, example_customer\<lparr>fc_due_date := 200\<rparr>], Some 1, Some 200)
   \<and> map placement [example_depot, example_customer]
     = map placement [example_depot, example_customer\<lparr>fc_due_date := 200\<rparr>]
   \<and> \<not> isl (FileProblem_init example_float example_int example_rows 0)
   \<and> \<not> isl (FileProblem_init example_float example_int sound_rows 0)"
proof -
  have e: "customer_rows 0 0 [] = []" "rows_parse example_int 0 0 []"
    by (simp_all add: customer_rows_def rows_parse_def)
  have p: "map placement [example_depot, example_customer]
     = map placement [example_depot, example_customer\<lparr>fc_due_date := 200\<rparr>]"
    by (simp add: placement_def)
  have l: "\<not> isl (FileProblem_init example_float example_int example_rows 0)"
    by (simp add: example_init)
  from construction_checks_no_values
         [of "[]" "[]" "[]" 0 0 "[]" example_float example_int example_int 0 "[]"] e
  have x: "FileProblem_init example_float example_int [] 0 = Inl IndexError" by blast
  from construction_checks_no_values
         [of "[]" "[]" "[]" 0 0 example_rows example_float example_int example_int 0 sound_rows]
    example_read_rows sound_read_rows p l
  have y: "\<not> isl (FileProblem_init example_float example_int sound_rows 0)" by blast
  from e x example_read_rows sound_read_rows p l y show ?thesis by blast
qed

text \<open>
  The example file, with capacity 0 and a customer whose ready time 10 is after
  its due date 0, is loaded; the pydantic \<open>Problem\<close> with capacity 0, no customer
  and depot index 7 is built.
\<close>

theorem construction_accepts_bad_values:
  "FileProblem_init example_float example_int example_rows 0 = Inr example_file_problem
   \<and> fp_capacity example_file_problem = Some 0
   \<and> fc_ready_time (fp_customers example_file_problem ! 1) = 10
   \<and> fc_due_date (fp_customers example_file_problem ! 1) = 0
   \<and> Problem_new [\<lparr>veh_id = 0, capacity = 0\<rparr>] [] ''empty.txt'' 7
     = Inr \<lparr>vehicles = [\<lparr>veh_id = 0, capacity = 0\<rparr>], customers = [],
            problem_id = ''empty.txt'', depot = 7\<rparr>"
  using example_init
  by (simp add: example_file_problem_def example_customer_def Problem_new_def)

section \<open>C10: the depot is appended\<close>

text \<open>
  C10.  In every Problem the file-loading constructor builds, the depot is the
  customer at index 0 and at the last index, \<open>no_customers()\<close> is the number of
  customer rows of the file plus one, and \<open>travel_time\<close> has exactly the keys
  0 to \<open>no_customers() - 1\<close>, each row having the same keys.
\<close>

theorem FileProblem_init_appends_depot:
  assumes "FileProblem_init ops py_int rows skiprows = Inr p"
  shows "fp_customers p ! 0 = fp_depot p
         \<and> fp_customers p ! (no_customers p - 1) = fp_depot p
         \<and> no_customers p = length (customer_rows skiprows 0 rows) + 1
         \<and> dom (travel_time p) = {i. 0 \<le> i \<and> i < int (no_customers p)}
         \<and> (\<forall>i row. travel_time p i = Some row
               \<longrightarrow> dom row = {j. 0 \<le> j \<and> j < int (no_customers p)})"
proof -
  from FileProblem_init_customers[OF assms] obtain cs veh cap d t where
    r: "read_rows py_int skiprows 0 rows ([], None, None) = Inr (d # cs, veh, cap)"
    and p: "p = \<lparr>fp_customers = (d # cs) @ [d], fp_vehicles = veh, fp_capacity = cap,
                 fp_depot = d, travel_time = t\<rparr>"
    by blast
  from read_rows_length[OF r] have n: "length (customer_rows skiprows 0 rows) = Suc (length cs)"
    by simp
  from FileProblem_init_matrix[OF assms] obtain m where
    t: "travel_time p = dict_of_list (map dict_of_list m)"
    and len: "length m = no_customers p"
    and row: "\<forall>i < no_customers p. length (m ! i) = no_customers p" by blast
  have a: "fp_customers p ! 0 = fp_depot p" by (simp add: p)
  have b: "fp_customers p ! (no_customers p - 1) = fp_depot p"
    by (simp add: p no_customers_def nth_append)
  have c: "no_customers p = length (customer_rows skiprows 0 rows) + 1"
    by (simp add: p no_customers_def n)
  have d: "dom (travel_time p) = {i. 0 \<le> i \<and> i < int (no_customers p)}"
    by (simp add: t dom_dict_of_list len)
  have e: "dom rw = {j. 0 \<le> j \<and> j < int (no_customers p)}"
    if "travel_time p i = Some rw" for i rw
  proof -
    from that have i: "0 \<le> i" "i < int (length m)" and rw: "rw = dict_of_list (m ! nat i)"
      by (auto simp: t dict_of_list_def split: if_splits)
    from i len have "nat i < no_customers p" by simp
    with row have "length (m ! nat i) = no_customers p" by blast
    with rw show ?thesis by (simp add: dom_dict_of_list)
  qed
  from a b c d e show ?thesis by blast
qed

theorem FileProblem_init_appends_depot_witness:
  "FileProblem_init example_float example_int example_rows 0 = Inr example_file_problem
   \<and> fp_customers example_file_problem ! 0 = fp_depot example_file_problem
   \<and> fp_customers example_file_problem ! 2 = fp_depot example_file_problem
   \<and> no_customers example_file_problem = 3"
proof -
  have "fp_customers example_file_problem ! 2 = fp_depot example_file_problem"
    by (simp add: example_file_problem_def)
  with FileProblem_init_appends_depot[OF example_init] example_init example_customer_rows
  show ?thesis by simp
qed

section \<open>The time print\_solution accumulates\<close>

text \<open>
  The sum of the cumulative times at the end indices of the routes is what
  \<open>print_solution\<close> adds to \<open>total_driving_time\<close>, on every call; it then calls
  \<open>evaluate_cost\<close>, which stores the cost in \<open>total_driving_service_time\<close>.
\<close>

lemma print_solution_while_path:
  assumes "nodes_in_range s"
  shows "ends_within s n i \<Longrightarrow>
   print_solution_while s i a
   = Some (Inr (terminal s n i,
                a + sum_list (map (\<lambda>j. demand (node_customer s j)) (path s n i))))"
proof (induction n arbitrary: i a)
  case 0
  then show ?case by (subst print_solution_while.simps) simp
next
  case (Suc n)
  show ?case
  proof (cases "IsEnd (model s) i")
    case True
    then show ?thesis by (subst print_solution_while.simps) simp
  next
    case False
    with Suc.prems have e: "ends_within s n (NextValue (fsolution s) i)" by simp
    with False Suc.IH[OF e] show ?thesis
      by (subst print_solution_while.simps) (simp add: customer_in_range[OF assms])
  qed
qed

lemma print_solution_for_path:
  assumes "nodes_in_range s"
  shows "\<forall>v \<in> set vs. ends_within s n (Start (model s) (int v)) \<Longrightarrow>
    print_solution_for s vs driving_total
    = Some (Inr (driving_total + sum_list (map (\<lambda>v. CumulMin (fsolution s) (last (route_indices s n v))) vs)))"
proof (induction vs arbitrary: driving_total)
  case Nil
  show ?case by simp
next
  case (Cons v vs)
  from Cons.prems have e: "ends_within s n (Start (model s) (int v))" by simp
  from Cons.prems have rest: "\<forall>v \<in> set vs. ends_within s n (Start (model s) (int v))" by simp
  show ?case
    by (simp add: print_solution_while_path[OF assms e] Cons.IH[OF rest] route_indices_def)
qed

lemma print_solution_closed:
  assumes "nodes_in_range s" and "routes_end s n (length (vehicles (problem s)))"
  shows "print_solution s
         = Some (Inr (s\<lparr>total_driving_time := total_driving_time s + terminal_time_sum s n,
                        total_driving_service_time := total_cost s n\<rparr>))"
proof -
  let ?t = "total_driving_time s + terminal_time_sum s n"
  have "same_inputs s (s\<lparr>total_driving_time := ?t\<rparr>)" by (simp add: same_inputs_def)
  from evaluate_cost_transfer[OF this evaluate_cost_closed[OF assms]]
  have "evaluate_cost (s\<lparr>total_driving_time := ?t\<rparr>)
        = Some (Inr (total_cost s n,
                     s\<lparr>total_driving_time := ?t, total_driving_service_time := total_cost s n\<rparr>))"
    by simp
  with print_solution_for_path[OF assms(1) routes_end_all[OF assms(2)], of "total_driving_time s"]
  show ?thesis by (simp add: print_solution_def terminal_time_sum_def)
qed

end
